theory Spec2Isabelle
  imports Complex_Main "HOL-Library.Log_Nat" "HOL-Library.Word"
begin

section \<open>JavaScript numbers\<close>

text \<open>
  A JavaScript number is an IEEE 754 binary64 value: NaN, an infinity, or a finite
  value. Every finite binary64 value is a rational, so the finite values are carried by
  \<^typ>\<open>rat\<close>. The two zeros are identified: the comparisons of the language do not
  tell them apart, and the only divisor that the program computes, \<open>max - min\<close>, is \<open>+0\<close>
  whenever it is zero. A value \<open>Fin q\<close> is a binary64 value when \<open>q\<close> is \<open>representable\<close>
  (defined below); the arithmetic only ever returns such values, and the theorems hold
  for every \<open>Fin q\<close>.
\<close>

datatype number = NaN | NegInf | Fin rat | PosInf

text \<open>Rounding a rational to the nearest integer, ties to the even one.\<close>

definition rne :: "rat \<Rightarrow> int" where
  "rne x = (let f = \<lfloor>x\<rfloor>; d = x - of_int f in
     if d < 1 / 2 then f
     else if 1 / 2 < d then f + 1
     else if even f then f else f + 1)"

text \<open>The binary exponent of a positive rational: \<open>2 powi expo x \<le> x < 2 powi (expo x + 1)\<close>.\<close>

definition expo :: "rat \<Rightarrow> int" where
  "expo x = (case quotient_of x of (p, q) \<Rightarrow>
     let d = bitlen p - bitlen q in if 2 powi d \<le> x then d else d - 1)"

text \<open>
  Rounding a positive rational to 53 significant bits, the exponent bounded below by
  \<open>-1022\<close> (gradual underflow) and not bounded above; \<open>fl\<close> then maps a result that
  reaches \<open>2 powi 1024\<close> to an infinity. This is roundTiesToEven of IEEE 754, the rounding
  of every arithmetic operation of the language.
\<close>

definition fl_pos :: "rat \<Rightarrow> rat" where
  "fl_pos x = (let k = max (expo x) (- 1022) - 52 in of_int (rne (x / 2 powi k)) * 2 powi k)"

definition fl :: "rat \<Rightarrow> number" where
  "fl x = (if x = 0 then Fin 0
     else if 0 < x then (let r = fl_pos x in if 2 powi 1024 \<le> r then PosInf else Fin r)
     else (let r = fl_pos (- x) in if 2 powi 1024 \<le> r then NegInf else Fin (- r)))"

text \<open>The arithmetic operators \<open>+\<close>, \<open>-\<close>, \<open>*\<close>, \<open>/\<close> on numbers.\<close>

fun jneg :: "number \<Rightarrow> number" where
  "jneg NaN = NaN"
| "jneg NegInf = PosInf"
| "jneg PosInf = NegInf"
| "jneg (Fin a) = Fin (- a)"

fun jadd :: "number \<Rightarrow> number \<Rightarrow> number" where
  "jadd NaN y = NaN"
| "jadd x NaN = NaN"
| "jadd PosInf NegInf = NaN"
| "jadd NegInf PosInf = NaN"
| "jadd PosInf y = PosInf"
| "jadd NegInf y = NegInf"
| "jadd x PosInf = PosInf"
| "jadd x NegInf = NegInf"
| "jadd (Fin a) (Fin b) = fl (a + b)"

definition jsub :: "number \<Rightarrow> number \<Rightarrow> number" where
  "jsub x y = jadd x (jneg y)"

fun jmul :: "number \<Rightarrow> number \<Rightarrow> number" where
  "jmul NaN y = NaN"
| "jmul x NaN = NaN"
| "jmul (Fin a) (Fin b) = fl (a * b)"
| "jmul (Fin a) PosInf = (if a = 0 then NaN else if 0 < a then PosInf else NegInf)"
| "jmul (Fin a) NegInf = (if a = 0 then NaN else if 0 < a then NegInf else PosInf)"
| "jmul PosInf (Fin b) = (if b = 0 then NaN else if 0 < b then PosInf else NegInf)"
| "jmul NegInf (Fin b) = (if b = 0 then NaN else if 0 < b then NegInf else PosInf)"
| "jmul PosInf PosInf = PosInf"
| "jmul NegInf NegInf = PosInf"
| "jmul PosInf NegInf = NegInf"
| "jmul NegInf PosInf = NegInf"

fun jdiv :: "number \<Rightarrow> number \<Rightarrow> number" where
  "jdiv NaN y = NaN"
| "jdiv x NaN = NaN"
| "jdiv (Fin a) (Fin b) =
     (if b = 0 then (if a = 0 then NaN else if 0 < a then PosInf else NegInf)
      else fl (a / b))"
| "jdiv (Fin a) PosInf = Fin 0"
| "jdiv (Fin a) NegInf = Fin 0"
| "jdiv PosInf (Fin b) = (if 0 \<le> b then PosInf else NegInf)"
| "jdiv NegInf (Fin b) = (if 0 \<le> b then NegInf else PosInf)"
| "jdiv x y = NaN"

text \<open>The comparison \<open><=\<close>: false whenever an operand is NaN.\<close>

fun jle :: "number \<Rightarrow> number \<Rightarrow> bool" where
  "jle NaN y = False"
| "jle x NaN = False"
| "jle NegInf y = True"
| "jle x PosInf = True"
| "jle (Fin a) (Fin b) = (a \<le> b)"
| "jle x y = False"

fun jlt :: "number \<Rightarrow> number \<Rightarrow> bool" where
  "jlt NaN y = False"
| "jlt x NaN = False"
| "jlt (Fin a) (Fin b) = (a < b)"
| "jlt NegInf NegInf = False"
| "jlt PosInf y = False"
| "jlt NegInf y = True"
| "jlt x PosInf = True"
| "jlt x NegInf = False"

definition isNaN :: "number \<Rightarrow> bool" where
  "isNaN x = (x = NaN)"

definition isFinite :: "number \<Rightarrow> bool" where
  "isFinite x = (case x of Fin a \<Rightarrow> True | _ \<Rightarrow> False)"

text \<open>
  \<open>Math.round\<close>: the integer nearest to the argument, a tie going towards \<open>+\<infinity>\<close>;
  NaN and the infinities are returned as they are.
\<close>

fun Math_round :: "number \<Rightarrow> number" where
  "Math_round (Fin a) = Fin (of_int \<lfloor>a + 1 / 2\<rfloor>)"
| "Math_round x = x"

text \<open>
  \<open>Math.min\<close> and \<open>Math.max\<close> of an argument list: NaN if an argument is NaN, and
  \<open>+\<infinity>\<close> (\<open>-\<infinity>\<close>) for no argument at all.
\<close>

fun min_loop :: "number \<Rightarrow> number list \<Rightarrow> number" where
  "min_loop lowest [] = lowest"
| "min_loop lowest (x # xs) =
     (if isNaN x then NaN else min_loop (if jlt x lowest then x else lowest) xs)"

definition Math_min :: "number list \<Rightarrow> number" where
  "Math_min values = min_loop PosInf values"

fun max_loop :: "number \<Rightarrow> number list \<Rightarrow> number" where
  "max_loop highest [] = highest"
| "max_loop highest (x # xs) =
     (if isNaN x then NaN else max_loop (if jlt highest x then x else highest) xs)"

definition Math_max :: "number list \<Rightarrow> number" where
  "Math_max values = max_loop NegInf values"

section \<open>JavaScript strings\<close>

text \<open>A string is a sequence of UTF-16 code units.\<close>

type_synonym code_unit = "16 word"
type_synonym jsstring = "code_unit list"

definition ustr :: "string \<Rightarrow> jsstring" where
  "ustr s = map of_char s"

text \<open>White space and line terminators, as \<open>trim\<close> and \<open>parseFloat\<close> strip them.\<close>

definition isWhiteSpace :: "code_unit \<Rightarrow> bool" where
  "isWhiteSpace c \<longleftrightarrow>
     c = 0x9 \<or> c = 0xA \<or> c = 0xB \<or> c = 0xC \<or> c = 0xD \<or> c = 0x20 \<or> c = 0xA0 \<or>
     c = 0x1680 \<or> (0x2000 \<le> c \<and> c \<le> 0x200A) \<or> c = 0x2028 \<or> c = 0x2029 \<or>
     c = 0x202F \<or> c = 0x205F \<or> c = 0x3000 \<or> c = 0xFEFF"

definition trim :: "jsstring \<Rightarrow> jsstring" where
  "trim s = rev (dropWhile isWhiteSpace (rev (dropWhile isWhiteSpace s)))"

text \<open>\<open>s.split(sep)\<close> for a separator of one code unit: never an empty array.\<close>

fun split :: "code_unit \<Rightarrow> jsstring \<Rightarrow> jsstring list" where
  "split sep [] = [[]]"
| "split sep (c # cs) =
     (if c = sep then [] # split sep cs
      else (case split sep cs of [] \<Rightarrow> [[c]] | w # ws \<Rightarrow> (c # w) # ws))"

text \<open>Reading an array element: \<open>undefined\<close> (here \<open>None\<close>) out of range.\<close>

definition index :: "'a list \<Rightarrow> nat \<Rightarrow> 'a option" where
  "index xs i = (if i < length xs then Some (xs ! i) else None)"

subsection \<open>parseFloat\<close>

definition isDigit :: "code_unit \<Rightarrow> bool" where
  "isDigit c \<longleftrightarrow> 0x30 \<le> c \<and> c \<le> 0x39"

definition digits_value :: "jsstring \<Rightarrow> nat" where
  "digits_value ds = foldl (\<lambda>a c. 10 * a + (unat c - 48)) 0 ds"

text \<open>The exponent of the longest exponent part that starts the string, 0 if there is none.\<close>

definition parse_exponent :: "jsstring \<Rightarrow> int" where
  "parse_exponent s =
     (case s of
        [] \<Rightarrow> 0
      | c # r \<Rightarrow>
          if c = 0x65 \<or> c = 0x45 then
            (case r of
               [] \<Rightarrow> 0
             | d # r' \<Rightarrow>
                 if d = 0x2B then
                   (if takeWhile isDigit r' = [] then 0
                    else int (digits_value (takeWhile isDigit r')))
                 else if d = 0x2D then
                   (if takeWhile isDigit r' = [] then 0
                    else - int (digits_value (takeWhile isDigit r')))
                 else if takeWhile isDigit r = [] then 0
                 else int (digits_value (takeWhile isDigit r)))
          else 0)"

text \<open>
  The value of the longest unsigned decimal literal that starts the string: digits with
  an optional fraction and exponent, or a fraction that starts with the point. \<open>None\<close>
  if no prefix is such a literal.
\<close>

definition parse_unsigned :: "jsstring \<Rightarrow> rat option" where
  "parse_unsigned s =
     (let ip = takeWhile isDigit s; r1 = dropWhile isDigit s in
      case r1 of
        [] \<Rightarrow> if ip = [] then None else Some (of_nat (digits_value ip))
      | c # r2 \<Rightarrow>
          if c = 0x2E then
            (let fp = takeWhile isDigit r2; r3 = dropWhile isDigit r2 in
             if ip = [] \<and> fp = [] then None
             else Some (of_nat (digits_value (ip @ fp)) / 10 ^ length fp
                          * 10 powi parse_exponent r3))
          else if ip = [] then None
          else Some (of_nat (digits_value ip) * 10 powi parse_exponent r1))"

definition parseFloat_string :: "jsstring \<Rightarrow> number" where
  "parseFloat_string input =
     (let t = dropWhile isWhiteSpace input;
          neg = (case t of [] \<Rightarrow> False | c # r \<Rightarrow> c = 0x2D);
          u = (case t of [] \<Rightarrow> [] | c # r \<Rightarrow> if c = 0x2D \<or> c = 0x2B then r else t)
      in if take 8 u = ustr ''Infinity'' then (if neg then NegInf else PosInf)
         else (case parse_unsigned u of
                 None \<Rightarrow> NaN
               | Some q \<Rightarrow> fl (if neg then - q else q)))"

text \<open>The argument is converted to a string first: \<open>undefined\<close> becomes \<open>"undefined"\<close>.\<close>

definition parseFloat :: "jsstring option \<Rightarrow> number" where
  "parseFloat v = parseFloat_string (case v of None \<Rightarrow> ustr ''undefined'' | Some s \<Rightarrow> s)"

section \<open>The data loader\<close>

record cell_record =
  city :: "jsstring option"
  locality :: "jsstring option"
  h3index :: "jsstring option"
  poiCode :: "jsstring option"
  val_trans :: number

text \<open>A string is truthy when it is not empty; \<open>undefined\<close> is falsy.\<close>

definition truthy :: "jsstring option \<Rightarrow> bool" where
  "truthy v = (case v of None \<Rightarrow> False | Some s \<Rightarrow> s \<noteq> [])"

text \<open>The callback of \<open>map\<close>, lines 62 to 71 of App.tsx.\<close>

definition parse_line :: "jsstring \<Rightarrow> cell_record" where
  "parse_line line =
     (let values = split 0x2C line in
      \<lparr>city = index values 0,
       locality = index values 1,
       h3index = index values 2,
       poiCode = index values 3,
       val_trans = parseFloat (index values 4)\<rparr>)"

text \<open>Lines 58 to 72: what \<open>loadCSVData\<close> computes from the text of the response.\<close>

definition loadCSVData_parse :: "jsstring \<Rightarrow> cell_record list" where
  "loadCSVData_parse csvText =
     (let lines = split 0x0A csvText;
          data = filter (\<lambda>item. truthy (h3index item) \<and> \<not> isNaN (val_trans item))
                   (map parse_line
                      (filter (\<lambda>line. trim line \<noteq> []) (drop 1 lines)))
      in data)"

text \<open>
  The two awaited promises of \<open>loadCSVData\<close> either reject (with an error value) or give
  the text of the response. \<open>fetch\<close> does not reject on an HTTP error status, and the code
  does not look at the status: the body of any response is parsed.
\<close>

datatype fetch_result =
  FetchRejected jsstring
| TextRejected jsstring
| ResponseText jsstring

text \<open>A call of \<open>console.error\<close> with its two arguments.\<close>

type_synonym console = "(jsstring \<times> jsstring) list"

definition loadCSVData :: "fetch_result \<Rightarrow> cell_record list \<times> console" where
  "loadCSVData r =
     (case r of
        ResponseText csvText \<Rightarrow> (loadCSVData_parse csvText, [])
      | FetchRejected error \<Rightarrow> ([], [(ustr ''Error loading CSV data:'', error)])
      | TextRejected error \<Rightarrow> ([], [(ustr ''Error loading CSV data:'', error)]))"

section \<open>The color mapper\<close>

type_synonym rgba = "number \<times> number \<times> number \<times> number"

text \<open>\<open>getKeplerColor\<close>, lines 9 to 50 of App.tsx. The literals 0.25, 0.5 and 0.75 are binary64 values.\<close>

definition getKeplerColor :: "number \<Rightarrow> rgba" where
  "getKeplerColor normalized =
     (if jle normalized (Fin (1 / 4)) then
        (let t = jdiv normalized (Fin (1 / 4)) in
         (Math_round (jadd (Fin 68) (jmul (jsub (Fin 59) (Fin 68)) t)),
          Math_round (jadd (Fin 1) (jmul (jsub (Fin 82) (Fin 1)) t)),
          Math_round (jadd (Fin 84) (jmul (jsub (Fin 139) (Fin 84)) t)),
          Fin 200))
      else if jle normalized (Fin (1 / 2)) then
        (let t = jdiv (jsub normalized (Fin (1 / 4))) (Fin (1 / 4)) in
         (Math_round (jadd (Fin 59) (jmul (jsub (Fin 33) (Fin 59)) t)),
          Math_round (jadd (Fin 82) (jmul (jsub (Fin 144) (Fin 82)) t)),
          Math_round (jadd (Fin 139) (jmul (jsub (Fin 140) (Fin 139)) t)),
          Fin 200))
      else if jle normalized (Fin (3 / 4)) then
        (let t = jdiv (jsub normalized (Fin (1 / 2))) (Fin (1 / 4)) in
         (Math_round (jadd (Fin 33) (jmul (jsub (Fin 94) (Fin 33)) t)),
          Math_round (jadd (Fin 144) (jmul (jsub (Fin 201) (Fin 144)) t)),
          Math_round (jadd (Fin 140) (jmul (jsub (Fin 98) (Fin 140)) t)),
          Fin 200))
      else
        (let t = jdiv (jsub normalized (Fin (3 / 4))) (Fin (1 / 4)) in
         (Math_round (jadd (Fin 94) (jmul (jsub (Fin 253) (Fin 94)) t)),
          Math_round (jadd (Fin 201) (jmul (jsub (Fin 231) (Fin 201)) t)),
          Math_round (jadd (Fin 98) (jmul (jsub (Fin 37) (Fin 98)) t)),
          Fin 200)))"

text \<open>The four channels of a color.\<close>

definition red :: "rgba \<Rightarrow> number" where "red c = fst c"
definition green :: "rgba \<Rightarrow> number" where "green c = fst (snd c)"
definition blue :: "rgba \<Rightarrow> number" where "blue c = fst (snd (snd c))"
definition alpha :: "rgba \<Rightarrow> number" where "alpha c = snd (snd (snd c))"

text \<open>A number that is an integer between two bounds.\<close>

definition channel_in :: "int \<Rightarrow> int \<Rightarrow> number \<Rightarrow> bool" where
  "channel_in lo hi x =
     (case x of Fin q \<Rightarrow> q = of_int \<lfloor>q\<rfloor> \<and> lo \<le> \<lfloor>q\<rfloor> \<and> \<lfloor>q\<rfloor> \<le> hi | _ \<Rightarrow> False)"

definition isInteger :: "number \<Rightarrow> bool" where
  "isInteger x = (case x of Fin q \<Rightarrow> q = of_int \<lfloor>q\<rfloor> | _ \<Rightarrow> False)"

text \<open>
  The interpolated values of R, G and B: the arguments of the twelve calls of
  \<open>Math.round\<close> in \<open>getKeplerColor\<close> (lines 17 to 19, 26 to 28, 35 to 37 and 44 to 46),
  before they are rounded.
\<close>

definition interpolated :: "number \<Rightarrow> number \<times> number \<times> number" where
  "interpolated normalized =
     (if jle normalized (Fin (1 / 4)) then
        (let t = jdiv normalized (Fin (1 / 4)) in
         (jadd (Fin 68) (jmul (jsub (Fin 59) (Fin 68)) t),
          jadd (Fin 1) (jmul (jsub (Fin 82) (Fin 1)) t),
          jadd (Fin 84) (jmul (jsub (Fin 139) (Fin 84)) t)))
      else if jle normalized (Fin (1 / 2)) then
        (let t = jdiv (jsub normalized (Fin (1 / 4))) (Fin (1 / 4)) in
         (jadd (Fin 59) (jmul (jsub (Fin 33) (Fin 59)) t),
          jadd (Fin 82) (jmul (jsub (Fin 144) (Fin 82)) t),
          jadd (Fin 139) (jmul (jsub (Fin 140) (Fin 139)) t)))
      else if jle normalized (Fin (3 / 4)) then
        (let t = jdiv (jsub normalized (Fin (1 / 2))) (Fin (1 / 4)) in
         (jadd (Fin 33) (jmul (jsub (Fin 94) (Fin 33)) t),
          jadd (Fin 144) (jmul (jsub (Fin 201) (Fin 144)) t),
          jadd (Fin 140) (jmul (jsub (Fin 98) (Fin 140)) t)))
      else
        (let t = jdiv (jsub normalized (Fin (3 / 4))) (Fin (1 / 4)) in
         (jadd (Fin 94) (jmul (jsub (Fin 253) (Fin 94)) t),
          jadd (Fin 201) (jmul (jsub (Fin 231) (Fin 201)) t),
          jadd (Fin 98) (jmul (jsub (Fin 37) (Fin 98)) t))))"

text \<open>
  \<open>c\<close> is the integer nearest to the finite value \<open>x\<close>, the larger one of two that are
  equally near.
\<close>

definition nearest_integer :: "number \<Rightarrow> number \<Rightarrow> bool" where
  "nearest_integer x c =
     (case x of
        Fin a \<Rightarrow> (case c of Fin b \<Rightarrow> b = of_int \<lfloor>b\<rfloor> \<and> a - 1 / 2 < b \<and> b \<le> a + 1 / 2 | _ \<Rightarrow> False)
      | _ \<Rightarrow> False)"

text \<open>
  A finite number between two rational bounds, and a rational that is a binary64 value
  (rounding leaves it as it is).
\<close>

definition finite_in :: "rat \<Rightarrow> rat \<Rightarrow> number \<Rightarrow> bool" where
  "finite_in lo hi x = (case x of Fin q \<Rightarrow> lo \<le> q \<and> q \<le> hi | _ \<Rightarrow> False)"

definition representable :: "rat \<Rightarrow> bool" where
  "representable q = (fl q = Fin q)"

section \<open>The view component\<close>

text \<open>The range \<open>{min, max}\<close> of the state.\<close>

record data_range =
  range_min :: number
  range_max :: number

record app_state =
  data :: "cell_record list"
  loading :: bool
  dataRange :: data_range

definition initial_state :: app_state where
  "initial_state = \<lparr>data = [], loading = True,
     dataRange = \<lparr>range_min = Fin 0, range_max = Fin 0\<rparr>\<rparr>"

text \<open>An exception, of the language or of the h3-js library.\<close>

datatype js_error = RangeError | H3Error

text \<open>
  A call \<open>f(...args)\<close> passes every element of the array as one argument of the call. An
  engine takes a bounded number of arguments and throws a \<open>RangeError\<close> beyond it. The
  bound belongs to the engine, not to the program: it is the parameter \<open>max_args\<close>.
\<close>

definition spread_call :: "nat \<Rightarrow> (number list \<Rightarrow> number) \<Rightarrow> number list \<Rightarrow> js_error + number" where
  "spread_call max_args f args = (if max_args < length args then Inl RangeError else Inr (f args))"

text \<open>
  The effect \<open>loadData\<close>, lines 87 to 100: the state after its last update, the console,
  and the exception that ends it, if there is one. Nothing catches an exception of
  \<open>Math.min(...values)\<close> or \<open>Math.max(...values)\<close>: neither \<open>setDataRange\<close> nor
  \<open>setLoading(false)\<close> is reached then.
\<close>

definition loadData :: "nat \<Rightarrow> fetch_result \<Rightarrow> app_state \<Rightarrow> app_state \<times> console \<times> js_error option" where
  "loadData max_args r s =
     (let s1 = s\<lparr>loading := True\<rparr>;
          (csvData, log) = loadCSVData r;
          s2 = s1\<lparr>data := csvData\<rparr>
      in if length csvData > 0 then
           (let values = map val_trans csvData in
            case spread_call max_args Math_min values of
              Inl e \<Rightarrow> (s2, log, Some e)
            | Inr mn \<Rightarrow>
                (case spread_call max_args Math_max values of
                   Inl e \<Rightarrow> (s2, log, Some e)
                 | Inr mx \<Rightarrow>
                     (s2\<lparr>dataRange := \<lparr>range_min = mn, range_max = mx\<rparr>, loading := False\<rparr>,
                      log, None)))
         else (s2\<lparr>loading := False\<rparr>, log, None))"

text \<open>The accessor \<open>getFillColor\<close> of the layer, lines 128 to 132, and its local \<open>normalized\<close>.\<close>

definition normalized_value :: "data_range \<Rightarrow> cell_record \<Rightarrow> number" where
  "normalized_value dr d =
     (let v = val_trans d in jdiv (jsub v (range_min dr)) (jsub (range_max dr) (range_min dr)))"

definition getFillColor :: "data_range \<Rightarrow> cell_record \<Rightarrow> rgba" where
  "getFillColor dr d = getKeplerColor (normalized_value dr d)"

text \<open>
  The layer \<open>hexLayer\<close>, lines 124 to 142: one polygon for each record, with the cell
  identifier that \<open>getPolygon\<close> hands to the h3-js library when the layer is drawn, and
  the fill color.
\<close>

definition hexLayer :: "app_state \<Rightarrow> (jsstring option \<times> rgba) list" where
  "hexLayer s = map (\<lambda>d. (h3index d, getFillColor (dataRange s) d)) (data s)"

text \<open>
  What the component renders: the loading message, the error message, or the map with
  its center and its layer. The center is \<open>h3.cellToLatLng(data[0].h3index)\<close>, line 122:
  the function belongs to the h3-js library and is the parameter \<open>cellToLatLng\<close>; it
  returns the latitude and the longitude of a cell, or throws, and the exception leaves
  the render.
\<close>

datatype view =
  LoadingMessage
| ErrorMessage
| MapView "number \<times> number" "(jsstring option \<times> rgba) list"

definition App :: "(jsstring option \<Rightarrow> js_error + number \<times> number) \<Rightarrow> app_state \<Rightarrow> js_error + view" where
  "App cellToLatLng s =
     (if loading s then Inr LoadingMessage
      else if length (data s) = 0 then Inr ErrorMessage
      else (case cellToLatLng (h3index (data s ! 0)) of
              Inl e \<Rightarrow> Inl e
            | Inr center \<Rightarrow> Inr (MapView center (hexLayer s))))"

section \<open>The length of the loader's output, in the words of the specification\<close>

text \<open>
  The non-blank lines after the header, the fields of a line, and the lines that the
  specification says are dropped: those with an empty third field or a fifth field that
  parses to NaN.
\<close>

definition spec_data_lines :: "jsstring \<Rightarrow> jsstring list" where
  "spec_data_lines csvText = filter (\<lambda>line. trim line \<noteq> []) (drop 1 (split 0x0A csvText))"

definition spec_field :: "jsstring \<Rightarrow> nat \<Rightarrow> jsstring option" where
  "spec_field line i = index (split 0x2C line) i"

definition spec_dropped :: "jsstring \<Rightarrow> bool" where
  "spec_dropped line \<longleftrightarrow> spec_field line 2 = Some [] \<or> isNaN (parseFloat (spec_field line 4))"

section \<open>Properties of the rounding\<close>

lemma floor_rat_numeral [simp]:
  "\<lfloor>numeral a / numeral b :: rat\<rfloor> = numeral a div numeral b"
  "\<lfloor>- (numeral a / numeral b) :: rat\<rfloor> = - numeral a div numeral b"
  using floor_divide_of_int_eq[of "numeral a" "numeral b", where ?'a = rat]
    floor_divide_of_int_eq[of "- numeral a" "numeral b", where ?'a = rat]
  by simp_all

lemma rne_of_int [simp]: "rne (of_int m) = m"
  by (simp add: rne_def)

lemma rne_mono: "x \<le> y \<Longrightarrow> rne x \<le> rne y"
proof -
  assume xy: "x \<le> y"
  have fxy: "\<lfloor>x\<rfloor> \<le> \<lfloor>y\<rfloor>" using xy by (rule floor_mono)
  show ?thesis
  proof (cases "\<lfloor>x\<rfloor> = \<lfloor>y\<rfloor>")
    case True
    then show ?thesis using xy by (auto simp: rne_def Let_def)
  next
    case False
    then have "\<lfloor>x\<rfloor> + 1 \<le> \<lfloor>y\<rfloor>" using fxy by linarith
    moreover have "rne x \<le> \<lfloor>x\<rfloor> + 1" by (auto simp: rne_def Let_def)
    moreover have "\<lfloor>y\<rfloor> \<le> rne y" by (auto simp: rne_def Let_def)
    ultimately show ?thesis by linarith
  qed
qed

lemma expo_bounds:
  assumes "0 < x"
  shows "2 powi expo x \<le> x" and "x < 2 powi (expo x + 1)"
proof -
  obtain p q where pq: "quotient_of x = (p, q)" by (cases "quotient_of x")
  then have q: "0 < q" and x: "x = of_int p / of_int q"
    by (auto dest: quotient_of_denom_pos quotient_of_div)
  from assms x q have p: "0 < p" by (simp add: zero_less_divide_iff)
  define d where "d = bitlen p - bitlen q"
  have e: "expo x = (if 2 powi d \<le> x then d else d - 1)"
    by (simp add: expo_def pq d_def Let_def)
  from bitlen_bounds[OF p] have p1: "(2::rat) ^ nat (bitlen p - 1) \<le> of_int p" and p2: "of_int p < (2::rat) ^ nat (bitlen p)"
    by (metis of_int_le_iff of_int_numeral of_int_power, metis of_int_less_iff of_int_numeral of_int_power)
  from bitlen_bounds[OF q] have q1: "(2::rat) ^ nat (bitlen q - 1) \<le> of_int q" and q2: "of_int q < (2::rat) ^ nat (bitlen q)"
    by (metis of_int_le_iff of_int_numeral of_int_power, metis of_int_less_iff of_int_numeral of_int_power)
  have bp: "0 < bitlen p" and bq: "0 < bitlen q" using p q bitlen_eq_zero_iff[of p] bitlen_eq_zero_iff[of q] bitlen_nonneg[of p] bitlen_nonneg[of q] by linarith+
  have P1: "(2::rat) powi (bitlen p - 1) \<le> of_int p" using p1 bp by (simp add: power_int_def)
  have P2: "of_int p < (2::rat) powi (bitlen p)" using p2 bp by (simp add: power_int_def)
  have Q1: "(2::rat) powi (bitlen q - 1) \<le> of_int q" using q1 bq by (simp add: power_int_def)
  have Q2: "of_int q < (2::rat) powi (bitlen q)" using q2 bq by (simp add: power_int_def)
  have lo: "2 powi (d - 1) < x"
  proof -
    have "2 powi (d - 1) * of_int q < 2 powi (d - 1) * (2::rat) powi (bitlen q)"
      using Q2 by simp
    also have "\<dots> = 2 powi (bitlen p - 1)" by (simp add: d_def flip: power_int_add)
    also have "\<dots> \<le> of_int p" by (rule P1)
    finally show ?thesis using q by (simp add: x pos_less_divide_eq)
  qed
  have hi: "x < 2 powi (d + 1)"
  proof -
    have "of_int p < (2::rat) powi (bitlen p)" by (rule P2)
    also have "\<dots> = 2 powi (d + 1) * 2 powi (bitlen q - 1)" by (simp add: d_def flip: power_int_add)
    also have "\<dots> \<le> 2 powi (d + 1) * of_int q" using Q1 by simp
    finally show ?thesis using q by (simp add: x pos_divide_less_eq)
  qed
  show "2 powi expo x \<le> x" using lo by (auto simp: e)
  show "x < 2 powi (expo x + 1)" using hi by (auto simp: e not_le)
qed


lemma two_powi_less_cancel: "(2::rat) powi m < 2 powi n \<Longrightarrow> m < n"
proof (rule ccontr)
  assume a: "(2::rat) powi m < 2 powi n" and "\<not> m < n"
  then have "n \<le> m" by simp
  then have "(2::rat) powi n \<le> 2 powi m" by (rule power_int_increasing) simp
  with a show False by simp
qed

lemma two_powi_mono: "m \<le> n \<Longrightarrow> (2::rat) powi m \<le> 2 powi n"
  by (rule power_int_increasing) simp_all

lemma two_powi_pos [simp]: "0 < (2::rat) powi n"
  by (simp add: zero_less_power_int)

lemma two_powi_split: "a + b = c \<Longrightarrow> (2::rat) powi a * 2 powi b = 2 powi c"
  using power_int_add[of "2::rat" a b] by simp

lemma expo_less: "0 < x \<Longrightarrow> x < 2 powi n \<Longrightarrow> expo x < n"
  using expo_bounds(1)[of x] two_powi_less_cancel[of "expo x" n] by linarith

lemma expo_mono:
  assumes "0 < x" "x \<le> y"
  shows "expo x \<le> expo y"
proof -
  have "0 < y" using assms by simp
  then have "y < 2 powi (expo y + 1)" by (rule expo_bounds)
  with assms have "x < 2 powi (expo y + 1)" by simp
  with assms(1) have "expo x < expo y + 1" by (rule expo_less)
  then show ?thesis by simp
qed

lemma fl_pos_ge:
  assumes "0 < y" "- 1022 \<le> expo y"
  shows "2 powi expo y \<le> fl_pos y"
proof -
  define k where "k = expo y - 52"
  have k: "max (expo y) (- 1022) - 52 = k" using assms by (simp add: k_def)
  have split: "(2::rat) powi 52 * 2 powi k = 2 powi expo y"
    by (rule two_powi_split) (simp add: k_def)
  then have "(2::rat) powi 52 * 2 powi k \<le> y" using expo_bounds(1)[OF assms(1)] by simp
  then have "(2::rat) powi 52 \<le> y / 2 powi k" by (simp add: pos_le_divide_eq)
  then have "rne (of_int (2 ^ 52)) \<le> rne (y / 2 powi k)" by (intro rne_mono) simp
  then have "(2::int) ^ 52 \<le> rne (y / 2 powi k)" by (simp only: rne_of_int)
  then have "(of_int ((2::int) ^ 52) :: rat) \<le> of_int (rne (y / 2 powi k))" by (simp only: of_int_le_iff)
  then have "(2::rat) powi 52 * 2 powi k \<le> of_int (rne (y / 2 powi k)) * 2 powi k"
    by (intro mult_right_mono) simp_all
  then have "(2::rat) powi expo y \<le> of_int (rne (y / 2 powi k)) * 2 powi k"
    by (simp only: split)
  moreover have "fl_pos y = of_int (rne (y / 2 powi k)) * 2 powi k"
    by (simp add: fl_pos_def k Let_def)
  ultimately show ?thesis by (simp only:)
qed

lemma fl_pos_le:
  assumes "0 < x"
  shows "fl_pos x \<le> 2 powi (max (expo x) (- 1022) + 1)"
proof -
  define E where "E = max (expo x) (- 1022)"
  define k where "k = E - 52"
  have "x < 2 powi (expo x + 1)" using assms by (rule expo_bounds)
  also have "\<dots> \<le> 2 powi (E + 1)" by (rule two_powi_mono) (simp add: E_def)
  also have "\<dots> = 2 powi 53 * 2 powi k" by (rule two_powi_split[symmetric]) (simp add: k_def)
  finally have "x / 2 powi k \<le> 2 powi 53" by (simp add: pos_divide_le_eq)
  then have "rne (x / 2 powi k) \<le> rne (of_int (2 ^ 53))" by (intro rne_mono) simp
  then have "rne (x / 2 powi k) \<le> 2 ^ 53" by (simp only: rne_of_int)
  then have "(of_int (rne (x / 2 powi k)) :: rat) \<le> of_int (2 ^ 53)" by (simp only: of_int_le_iff)
  then have "of_int (rne (x / 2 powi k)) * 2 powi k \<le> (2::rat) powi 53 * 2 powi k"
    by (intro mult_right_mono) simp_all
  also have "\<dots> = 2 powi (E + 1)" by (rule two_powi_split) (simp add: k_def)
  finally show ?thesis by (simp add: fl_pos_def E_def k_def Let_def)
qed

lemma fl_pos_mono:
  assumes "0 < x" "x \<le> y"
  shows "fl_pos x \<le> fl_pos y"
proof -
  have y: "0 < y" using assms by simp
  define Ex where "Ex = max (expo x) (- 1022)"
  define Ey where "Ey = max (expo y) (- 1022)"
  have le: "Ex \<le> Ey" using expo_mono[OF assms] by (simp add: Ex_def Ey_def)
  show ?thesis
  proof (cases "Ex = Ey")
    case True
    have "x / 2 powi (Ex - 52) \<le> y / 2 powi (Ex - 52)"
      using assms by (simp add: divide_right_mono)
    then have "rne (x / 2 powi (Ex - 52)) \<le> rne (y / 2 powi (Ex - 52))" by (rule rne_mono)
    then have "(of_int (rne (x / 2 powi (Ex - 52))) :: rat) * 2 powi (Ex - 52)
        \<le> of_int (rne (y / 2 powi (Ex - 52))) * 2 powi (Ex - 52)"
      by (intro mult_right_mono) simp_all
    then show ?thesis using True by (simp add: fl_pos_def Ex_def Ey_def Let_def)
  next
    case False
    with le have lt: "Ex < Ey" by simp
    then have ey: "Ey = expo y" "- 1022 \<le> expo y" by (auto simp: Ex_def Ey_def)
    have "fl_pos x \<le> 2 powi (Ex + 1)" using fl_pos_le[OF assms(1)] by (simp add: Ex_def)
    also have "\<dots> \<le> 2 powi Ey" using lt by (intro two_powi_mono) simp
    also have "\<dots> \<le> fl_pos y" using fl_pos_ge[OF y ey(2)] by (simp add: ey(1))
    finally show ?thesis .
  qed
qed

lemma fl_pos_exact:
  assumes m: "0 < m" "m < 2 ^ 53" and j: "- 1074 \<le> j"
  shows "fl_pos (of_int m * 2 powi j) = of_int m * 2 powi j"
proof -
  define x :: rat where "x = of_int m * 2 powi j"
  have x: "0 < x" using m by (simp add: x_def)
  have "(of_int m :: rat) < of_int (2 ^ 53)" using m(2) by (simp only: of_int_less_iff)
  then have "x < 2 powi 53 * 2 powi j" by (simp add: x_def)
  also have "\<dots> = 2 powi (j + 53)" by (rule two_powi_split) simp
  finally have "expo x < j + 53" using x by (intro expo_less)
  define k where "k = max (expo x) (- 1022) - 52"
  have kj: "k \<le> j" using \<open>expo x < j + 53\<close> j by (simp add: k_def)
  have "(2::rat) powi j = 2 powi (j - k) * 2 powi k" by (rule two_powi_split[symmetric]) simp
  also have "(2::rat) powi (j - k) = of_int (2 ^ nat (j - k))" using kj by (simp add: power_int_def)
  finally have "x / 2 powi k = of_int (m * 2 ^ nat (j - k))" by (simp add: x_def)
  then have "rne (x / 2 powi k) = m * 2 ^ nat (j - k)" by (simp only: rne_of_int)
  then have "of_int (rne (x / 2 powi k)) * 2 powi k = (x / 2 powi k) * 2 powi k"
    using \<open>x / 2 powi k = of_int (m * 2 ^ nat (j - k))\<close> by simp
  then show ?thesis by (simp add: fl_pos_def Let_def flip: k_def x_def)
qed


lemma rne_nonneg: "0 \<le> x \<Longrightarrow> 0 \<le> rne x"
  using rne_mono[of 0 x] rne_of_int[of 0] by simp

lemma fl_pos_nonneg: "0 < x \<Longrightarrow> 0 \<le> fl_pos x"
  by (simp add: fl_pos_def Let_def rne_nonneg)

lemma fl_mono: 
  assumes "x \<le> y"
  shows "jle (fl x) (fl y)"
proof -
  consider "x = 0" | "0 < x" | "x < 0" "0 \<le> y" | "x < 0" "y < 0" by linarith
  then show ?thesis
  proof cases
    case 1
    then show ?thesis using assms fl_pos_nonneg[of y] by (auto simp: fl_def Let_def)
  next
    case 2
    then have "0 < y" using assms by simp
    with 2 show ?thesis using fl_pos_mono[OF 2 assms] by (auto simp: fl_def Let_def)
  next
    case 3
    then show ?thesis using fl_pos_nonneg[of y] fl_pos_nonneg[of "- x"]
      by (auto simp: fl_def Let_def)
  next
    case 4
    then have "0 < - y" "- y \<le> - x" using assms by simp_all
    then have "fl_pos (- y) \<le> fl_pos (- x)" by (rule fl_pos_mono)
    with 4 show ?thesis by (auto simp: fl_def Let_def)
  qed
qed

lemma fl_exact:
  assumes m: "\<bar>m\<bar> < 2 ^ 53" and j: "- 1074 \<le> j" "j \<le> 971"
  shows "fl (of_int m * 2 powi j) = Fin (of_int m * 2 powi j)"
proof -
  have bound: "of_int n * 2 powi j < (2::rat) powi 1024" if n: "0 < n" "n < 2 ^ 53" for n :: int
  proof -
    have "(of_int n :: rat) < of_int (2 ^ 53)" using n(2) by (simp only: of_int_less_iff)
    then have "of_int n * 2 powi j < (2::rat) powi 53 * 2 powi j" by simp
    also have "\<dots> = 2 powi (53 + j)" by (rule two_powi_split) simp
    also have "\<dots> \<le> 2 powi 1024" using j by (intro two_powi_mono) simp
    finally show ?thesis .
  qed
  consider "m = 0" | "0 < m" | "m < 0" by linarith
  then show ?thesis
  proof cases
    case 1
    then show ?thesis by (simp add: fl_def)
  next
    case 2
    then have m2: "m < 2 ^ 53" using m by simp
    have pos: "0 < (of_int m :: rat) * 2 powi j" using 2 by simp
    have "fl_pos (of_int m * 2 powi j) = of_int m * 2 powi j"
      using 2 m2 j(1) by (rule fl_pos_exact)
    moreover have "of_int m * 2 powi j < (2::rat) powi 1024" using 2 m2 by (rule bound)
    ultimately show ?thesis using pos by (simp only: fl_def Let_def) simp
  next
    case 3
    then have m2: "0 < - m" "- m < 2 ^ 53" using m by simp_all
    have neg: "(of_int m :: rat) * 2 powi j < 0" using 3 by (simp add: mult_neg_pos)
    have eq: "- (of_int m * 2 powi j) = (of_int (- m) :: rat) * 2 powi j" by simp
    have "fl_pos (of_int (- m) * 2 powi j) = of_int (- m) * 2 powi j"
      using m2 j(1) by (rule fl_pos_exact)
    moreover have "of_int (- m) * 2 powi j < (2::rat) powi 1024" using m2 by (rule bound)
    ultimately show ?thesis using neg by (simp only: fl_def Let_def eq) simp
  qed
qed

lemma fl_between:
  assumes "a \<le> x" "x \<le> b" "fl a = Fin a'" "fl b = Fin b'"
  shows "\<exists>q. fl x = Fin q \<and> a' \<le> q \<and> q \<le> b'"
proof -
  have "jle (Fin a') (fl x)" using fl_mono[OF assms(1)] assms(3) by simp
  moreover have "jle (fl x) (Fin b')" using fl_mono[OF assms(2)] assms(4) by simp
  ultimately show ?thesis by (cases "fl x") auto
qed

subsection \<open>Intervals of finite numbers\<close>

lemma representable_scaled:
  "\<bar>m\<bar> < 2 ^ 53 \<Longrightarrow> - 1074 \<le> j \<Longrightarrow> j \<le> 971 \<Longrightarrow> representable (of_int m * 2 powi j)"
  unfolding representable_def by (rule fl_exact)

lemma representable_int: "\<bar>m\<bar> < 2 ^ 53 \<Longrightarrow> representable (of_int m)"
  using representable_scaled[of m 0] by simp

lemma representable_div1024: "\<bar>m\<bar> < 2 ^ 53 \<Longrightarrow> representable (of_int m / 1024)"
  using representable_scaled[of m "- 10"] by simp

lemma representable_div4096: "\<bar>m\<bar> < 2 ^ 53 \<Longrightarrow> representable (of_int m / 4096)"
  using representable_scaled[of m "- 12"] by simp

lemma finite_in_Fin [simp]: "finite_in lo hi (Fin q) \<longleftrightarrow> lo \<le> q \<and> q \<le> hi"
  by (simp add: finite_in_def)

lemma finite_inE: "finite_in lo hi x \<Longrightarrow> \<exists>q. x = Fin q \<and> lo \<le> q \<and> q \<le> hi"
  by (cases x) (simp_all add: finite_in_def)

lemma finite_in_fl:
  assumes "a \<le> x" "x \<le> b" "representable a" "representable b"
  shows "finite_in a b (fl x)"
  using fl_between[OF assms(1,2), of a b] assms(3,4) by (auto simp: representable_def)

lemma representable_pow2:
  assumes "- 1074 \<le> j" "j \<le> 1023"
  shows "representable (2 powi j)" and "representable (- (2 powi j))"
proof -
  define i where "i = min j 971"
  define m :: int where "m = 2 ^ nat (j - i)"
  have i: "- 1074 \<le> i" "i \<le> 971" "i \<le> j" "j - i \<le> 52" using assms by (auto simp: i_def)
  have "(2::int) ^ nat (j - i) \<le> 2 ^ 52" using i(4) by (intro power_increasing) auto
  then have m: "\<bar>m\<bar> < 2 ^ 53" "\<bar>- m\<bar> < 2 ^ 53" by (simp_all add: m_def)
  have "(of_int m :: rat) = 2 powi (j - i)" using i(3) by (simp add: m_def power_int_def)
  then have eq: "of_int m * 2 powi i = (2::rat) powi j"
    by (simp add: two_powi_split)
  from representable_scaled[OF m(1) i(1,2)] show "representable (2 powi j)" by (simp only: eq)
  have "of_int (- m) * 2 powi i = - ((2::rat) powi j)" using eq by simp
  with representable_scaled[OF m(2) i(1,2)] show "representable (- (2 powi j))" by (simp only:)
qed

lemma fl_bounded:
  assumes "\<bar>x\<bar> \<le> 2 powi j" "- 1074 \<le> j" "j \<le> 1023"
  shows "finite_in (- (2 powi j)) (2 powi j) (fl x)"
  using assms(1) by (intro finite_in_fl representable_pow2 assms(2,3)) simp_all

lemma two_powi_double: "(2::rat) powi (e + 1) = 2 * 2 powi e"
  using two_powi_split[of 1 e "e + 1"] by simp

subsection \<open>The rounding is to a nearest binary64 value\<close>

lemma rne_error: "\<bar>of_int (rne x) - x\<bar> \<le> 1 / 2"
proof -
  have "of_int \<lfloor>x\<rfloor> \<le> x" "x < of_int \<lfloor>x\<rfloor> + 1" by linarith+
  then show ?thesis by (auto simp: rne_def Let_def abs_le_iff)
qed

lemma expo_unique:
  assumes "2 powi e \<le> x" "x < 2 powi (e + 1)"
  shows "expo x = e"
proof -
  have x: "0 < x" using assms(1) two_powi_pos[of e] by linarith
  have "expo x < e + 1" using x assms(2) by (rule expo_less)
  moreover have "2 powi e < (2::rat) powi (expo x + 1)"
    using assms(1) expo_bounds(2)[OF x] by linarith
  then have "e < expo x + 1" by (rule two_powi_less_cancel)
  ultimately show ?thesis by linarith
qed

lemma fl_one_tenth: "fl (1 / 10) = Fin (3602879701896397 / 36028797018963968)"
proof -
  have "expo (1 / 10) = - 4" by (rule expo_unique) simp_all
  then show ?thesis by (simp add: fl_def fl_pos_def rne_def Let_def)
qed

lemma fl_pos_error:
  assumes "0 < x"
  shows "\<bar>fl_pos x - x\<bar> \<le> 2 powi (max (expo x) (- 1022) - 52) / 2"
proof -
  define k where "k = max (expo x) (- 1022) - 52"
  have "fl_pos x - x = (of_int (rne (x / 2 powi k)) - x / 2 powi k) * 2 powi k"
    by (simp add: fl_pos_def k_def Let_def algebra_simps)
  then have "\<bar>fl_pos x - x\<bar> = \<bar>of_int (rne (x / 2 powi k)) - x / 2 powi k\<bar> * 2 powi k"
    by (simp add: abs_mult)
  also have "\<dots> \<le> 1 / 2 * 2 powi k"
    by (intro mult_right_mono rne_error) simp
  finally show ?thesis by (simp add: k_def)
qed

lemma fl_pos_representable:
  assumes "0 < x" "fl_pos x < 2 powi 1024"
  shows "representable (fl_pos x)"
proof -
  define E where "E = max (expo x) (- 1022)"
  define k where "k = E - 52"
  define m where "m = rne (x / 2 powi k)"
  have r: "fl_pos x = of_int m * 2 powi k" by (simp add: fl_pos_def m_def k_def E_def Let_def)
  have upper: "fl_pos x \<le> 2 powi (E + 1)" using fl_pos_le[OF assms(1)] by (simp add: E_def)
  have m0: "0 \<le> m" unfolding m_def using assms(1) by (intro rne_nonneg) simp
  have "of_int m * 2 powi k \<le> (2::rat) powi 53 * 2 powi k"
    using upper two_powi_split[of 53 k "E + 1"] by (simp add: r k_def)
  then have "(of_int m :: rat) \<le> 2 powi 53" by simp
  then have "(of_int m :: rat) \<le> of_int (2 ^ 53)" by simp
  then have m53: "m \<le> 2 ^ 53" by (simp only: of_int_le_iff)
  have kge: "- 1074 \<le> k" by (simp add: k_def E_def)
  show ?thesis
  proof (cases "m = 2 ^ 53")
    case True
    then have eq: "fl_pos x = 2 powi (E + 1)"
      using two_powi_split[of 53 k "E + 1"] by (simp add: r k_def)
    from assms(2) have "(2::rat) powi (E + 1) < 2 powi 1024" unfolding eq .
    then have "E + 1 < 1024" by (rule two_powi_less_cancel)
    then show ?thesis unfolding eq by (intro representable_pow2) (simp_all add: E_def)
  next
    case False
    with m53 m0 have m: "\<bar>m\<bar> < 2 ^ 53" by simp
    show ?thesis
    proof (cases "k \<le> 971")
      case True
      with m kge show ?thesis unfolding r by (intro representable_scaled)
    next
      case False
      then have E: "1023 < E" by (simp add: k_def)
      then have Ex: "E = expo x" by (simp add: E_def)
      have "2 powi 1024 \<le> (2::rat) powi E" using E by (intro two_powi_mono) simp
      also have "\<dots> \<le> fl_pos x" using fl_pos_ge[OF assms(1)] E Ex by simp
      finally show ?thesis using assms(2) by simp
    qed
  qed
qed

lemma representable_neg: "representable x \<Longrightarrow> representable (- x)"
proof -
  assume r: "representable x"
  consider "x = 0" | "0 < x" | "x < 0" by linarith
  then show ?thesis
  proof cases
    case 1 then show ?thesis using r by simp
  next
    case 2
    with r show ?thesis by (auto simp: representable_def fl_def Let_def split: if_splits)
  next
    case 3
    with r show ?thesis by (auto simp: representable_def fl_def Let_def split: if_splits)
  qed
qed

lemma fl_representable: "fl x = Fin r \<Longrightarrow> representable r"
proof -
  assume a: "fl x = Fin r"
  consider "x = 0" | "0 < x" | "x < 0" by linarith
  then show ?thesis
  proof cases
    case 1
    with a show ?thesis by (simp add: representable_def fl_def)
  next
    case 2
    with a have "r = fl_pos x" "fl_pos x < 2 powi 1024"
      by (auto simp: fl_def Let_def split: if_splits)
    with 2 show ?thesis by (simp add: fl_pos_representable)
  next
    case 3
    with a have "r = - fl_pos (- x)" "fl_pos (- x) < 2 powi 1024"
      by (auto simp: fl_def Let_def split: if_splits)
    with 3 show ?thesis by (simp add: fl_pos_representable representable_neg)
  qed
qed

subsection \<open>Arithmetic on intervals\<close>

lemma jsub_Fin [simp]: "jsub (Fin a) (Fin b) = fl (a - b)"
  by (simp add: jsub_def)

lemma param_first:
  assumes "of_int a / 4096 \<le> q" "q \<le> of_int b / 4096" "\<bar>a\<bar> < 2 ^ 53" "\<bar>b\<bar> < 2 ^ 53"
  shows "finite_in (of_int a / 1024) (of_int b / 1024) (jdiv (Fin q) (Fin (1 / 4)))"
proof -
  have "of_int a / 1024 \<le> q / (1 / 4)" "q / (1 / 4) \<le> of_int b / 1024"
    using assms(1,2) by simp_all
  then have "finite_in (of_int a / 1024) (of_int b / 1024) (fl (q / (1 / 4)))"
    using assms(3,4) by (intro finite_in_fl representable_div1024)
  then show ?thesis by simp
qed

lemma param_next:
  assumes "c + of_int a / 4096 \<le> q" "q \<le> c + of_int b / 4096" "\<bar>a\<bar> < 2 ^ 53" "\<bar>b\<bar> < 2 ^ 53"
  shows "finite_in (of_int a / 1024) (of_int b / 1024) (jdiv (jsub (Fin q) (Fin c)) (Fin (1 / 4)))"
proof -
  have "of_int a / 4096 \<le> q - c" "q - c \<le> of_int b / 4096" using assms(1,2) by simp_all
  then have "finite_in (of_int a / 4096) (of_int b / 4096) (fl (q - c))"
    using assms(3,4) by (intro finite_in_fl representable_div4096)
  then obtain s where s: "fl (q - c) = Fin s" "of_int a / 4096 \<le> s" "s \<le> of_int b / 4096"
    by (auto dest: finite_inE)
  then have "of_int a / 4096 \<le> s" "s \<le> of_int b / 4096" "\<bar>a\<bar> < 2 ^ 53" "\<bar>b\<bar> < 2 ^ 53"
    using assms by simp_all
  then have "finite_in (of_int a / 1024) (of_int b / 1024) (jdiv (Fin s) (Fin (1 / 4)))"
    by (rule param_first)
  then show ?thesis using s(1) by simp
qed

lemma small_product:
  fixes c a :: int
  assumes "\<bar>c\<bar> \<le> 1000" "0 \<le> a" "a \<le> 1024"
  shows "\<bar>c * a\<bar> \<le> 1024000"
proof -
  have "\<bar>c * a\<bar> = \<bar>c\<bar> * a" using assms(2) by (simp add: abs_mult)
  also have "\<dots> \<le> 1000 * 1024" using assms by (intro mult_mono) simp_all
  finally show ?thesis by simp
qed

lemma channel_up:
  assumes t: "finite_in (of_int a / 1024) (of_int b / 1024) t"
    and a: "0 \<le> a" "a \<le> 1024" and b: "0 \<le> b" "b \<le> 1024"
    and c: "\<bar>c0\<bar> \<le> 1000" "0 \<le> c1" "c1 \<le> 1000"
  shows "finite_in (of_int (1024 * c0 + c1 * a) / 1024) (of_int (1024 * c0 + c1 * b) / 1024)
           (jadd (Fin (of_int c0)) (jmul (Fin (of_int c1)) t))"
proof -
  from t obtain q where q: "t = Fin q" "of_int a / 1024 \<le> q" "q \<le> of_int b / 1024"
    by (auto dest: finite_inE)
  have c1: "\<bar>c1\<bar> \<le> 1000" using c by simp
  have pa: "\<bar>c1 * a\<bar> \<le> 1024000" using c1 a by (rule small_product)
  have pb: "\<bar>c1 * b\<bar> \<le> 1024000" using c1 b by (rule small_product)
  have pos: "0 \<le> (of_int c1 :: rat)" using c(2) by simp
  have "of_int c1 * (of_int a / 1024) \<le> of_int c1 * q" "of_int c1 * q \<le> of_int c1 * (of_int b / 1024)"
    using mult_left_mono[OF q(2) pos] mult_left_mono[OF q(3) pos] by simp_all
  then have "of_int (c1 * a) / 1024 \<le> of_int c1 * q" "of_int c1 * q \<le> of_int (c1 * b) / 1024"
    by simp_all
  then have "finite_in (of_int (c1 * a) / 1024) (of_int (c1 * b) / 1024) (fl (of_int c1 * q))"
    using pa pb by (intro finite_in_fl representable_div1024) simp_all
  then obtain p where p: "fl (of_int c1 * q) = Fin p" "of_int (c1 * a) / 1024 \<le> p" "p \<le> of_int (c1 * b) / 1024"
    by (auto dest: finite_inE)
  have "of_int (1024 * c0 + c1 * a) / 1024 \<le> of_int c0 + p" "of_int c0 + p \<le> of_int (1024 * c0 + c1 * b) / 1024"
    using p(2,3) by (simp_all add: field_simps)
  then have "finite_in (of_int (1024 * c0 + c1 * a) / 1024) (of_int (1024 * c0 + c1 * b) / 1024) (fl (of_int c0 + p))"
    using pa pb c(1) by (intro finite_in_fl representable_div1024) simp_all
  then show ?thesis using q(1) p(1) by simp
qed

lemma channel_down:
  assumes t: "finite_in (of_int a / 1024) (of_int b / 1024) t"
    and a: "0 \<le> a" "a \<le> 1024" and b: "0 \<le> b" "b \<le> 1024"
    and c: "\<bar>c0\<bar> \<le> 1000" "c1 \<le> 0" "- 1000 \<le> c1"
  shows "finite_in (of_int (1024 * c0 + c1 * b) / 1024) (of_int (1024 * c0 + c1 * a) / 1024)
           (jadd (Fin (of_int c0)) (jmul (Fin (of_int c1)) t))"
proof -
  from t obtain q where q: "t = Fin q" "of_int a / 1024 \<le> q" "q \<le> of_int b / 1024"
    by (auto dest: finite_inE)
  have c1: "\<bar>c1\<bar> \<le> 1000" using c by simp
  have pa: "\<bar>c1 * a\<bar> \<le> 1024000" using c1 a by (rule small_product)
  have pb: "\<bar>c1 * b\<bar> \<le> 1024000" using c1 b by (rule small_product)
  have neg: "(of_int c1 :: rat) \<le> 0" using c(2) by simp
  have "of_int c1 * (of_int b / 1024) \<le> of_int c1 * q" "of_int c1 * q \<le> of_int c1 * (of_int a / 1024)"
    using mult_left_mono_neg[OF q(3) neg] mult_left_mono_neg[OF q(2) neg] by simp_all
  then have "of_int (c1 * b) / 1024 \<le> of_int c1 * q" "of_int c1 * q \<le> of_int (c1 * a) / 1024"
    by simp_all
  then have "finite_in (of_int (c1 * b) / 1024) (of_int (c1 * a) / 1024) (fl (of_int c1 * q))"
    using pa pb by (intro finite_in_fl representable_div1024) simp_all
  then obtain p where p: "fl (of_int c1 * q) = Fin p" "of_int (c1 * b) / 1024 \<le> p" "p \<le> of_int (c1 * a) / 1024"
    by (auto dest: finite_inE)
  have "of_int (1024 * c0 + c1 * b) / 1024 \<le> of_int c0 + p" "of_int c0 + p \<le> of_int (1024 * c0 + c1 * a) / 1024"
    using p(2,3) by (simp_all add: field_simps)
  then have "finite_in (of_int (1024 * c0 + c1 * b) / 1024) (of_int (1024 * c0 + c1 * a) / 1024) (fl (of_int c0 + p))"
    using pa pb c(1) by (intro finite_in_fl representable_div1024) simp_all
  then show ?thesis using q(1) p(1) by simp
qed

lemma round_channel:
  assumes "finite_in lo hi x" "of_int L - 1 / 2 \<le> lo" "hi < of_int H + 1 / 2"
  shows "channel_in L H (Math_round x)"
proof -
  from assms(1) obtain q where q: "x = Fin q" "lo \<le> q" "q \<le> hi" by (auto dest: finite_inE)
  have "L \<le> \<lfloor>q + 1 / 2\<rfloor>" using q(2) assms(2) by (simp add: le_floor_iff)
  moreover have "\<lfloor>q + 1 / 2\<rfloor> \<le> H" using q(3) assms(3) by (simp add: floor_le_iff)
  ultimately show ?thesis by (simp add: q(1) channel_in_def)
qed

section \<open>Properties of the color mapper\<close>

lemma fl_zero [simp]: "fl 0 = Fin 0"
  by (simp add: fl_def)

lemma fl_one [simp]: "fl 1 = Fin 1"
  using fl_exact[of 1 0] by simp

lemma fl_numeral [simp]: "numeral k < (2::int) ^ 53 \<Longrightarrow> fl (numeral k) = Fin (numeral k)"
  using fl_exact[of "numeral k" 0] by simp

lemma fl_neg_numeral [simp]: "numeral k < (2::int) ^ 53 \<Longrightarrow> fl (- numeral k) = Fin (- numeral k)"
  using fl_exact[of "- numeral k" 0] by simp

lemma fl_quarters [simp]: "fl (1 / 4) = Fin (1 / 4)" "fl (1 / 2) = Fin (1 / 2)" "fl (3 / 4) = Fin (3 / 4)"
  using fl_exact[of 1 "- 2"] fl_exact[of 1 "- 1"] fl_exact[of 3 "- 2"] by simp_all

lemma channel_round_up:
  assumes "finite_in (of_int a / 1024) (of_int b / 1024) t"
    and "0 \<le> a" "a \<le> 1024" "0 \<le> b" "b \<le> 1024"
    and "\<bar>c0\<bar> \<le> 1000" "0 \<le> c1" "c1 \<le> 1000"
  shows "channel_in \<lfloor>of_int (1024 * c0 + c1 * a) / 1024 + 1 / 2 :: rat\<rfloor>
           \<lfloor>of_int (1024 * c0 + c1 * b) / 1024 + 1 / 2 :: rat\<rfloor>
           (Math_round (jadd (Fin (of_int c0)) (jmul (Fin (of_int c1)) t)))"
  by (rule round_channel[OF channel_up[OF assms]]) linarith+

lemma channel_round_down:
  assumes "finite_in (of_int a / 1024) (of_int b / 1024) t"
    and "0 \<le> a" "a \<le> 1024" "0 \<le> b" "b \<le> 1024"
    and "\<bar>c0\<bar> \<le> 1000" "c1 \<le> 0" "- 1000 \<le> c1"
  shows "channel_in \<lfloor>of_int (1024 * c0 + c1 * b) / 1024 + 1 / 2 :: rat\<rfloor>
           \<lfloor>of_int (1024 * c0 + c1 * a) / 1024 + 1 / 2 :: rat\<rfloor>
           (Math_round (jadd (Fin (of_int c0)) (jmul (Fin (of_int c1)) t)))"
  by (rule round_channel[OF channel_down[OF assms]]) linarith+

lemma seg1:
  assumes q: "of_int a / 4096 \<le> q" "q \<le> of_int b / 4096"
    and ab: "0 \<le> a" "a \<le> 1024" "0 \<le> b" "b \<le> 1024"
  shows "channel_in \<lfloor>of_int (1024 * 68 + - 9 * b) / 1024 + 1 / 2 :: rat\<rfloor>
           \<lfloor>of_int (1024 * 68 + - 9 * a) / 1024 + 1 / 2 :: rat\<rfloor> (red (getKeplerColor (Fin q)))"
    and "channel_in \<lfloor>of_int (1024 * 1 + 81 * a) / 1024 + 1 / 2 :: rat\<rfloor>
           \<lfloor>of_int (1024 * 1 + 81 * b) / 1024 + 1 / 2 :: rat\<rfloor> (green (getKeplerColor (Fin q)))"
    and "channel_in \<lfloor>of_int (1024 * 84 + 55 * a) / 1024 + 1 / 2 :: rat\<rfloor>
           \<lfloor>of_int (1024 * 84 + 55 * b) / 1024 + 1 / 2 :: rat\<rfloor> (blue (getKeplerColor (Fin q)))"
    and "alpha (getKeplerColor (Fin q)) = Fin 200"
proof -
  have le: "q \<le> 1 / 4" using q(2) ab(4) by simp
  have t: "finite_in (of_int a / 1024) (of_int b / 1024) (jdiv (Fin q) (Fin (1 / 4)))"
    using q ab by (intro param_first) simp_all
  show "channel_in \<lfloor>of_int (1024 * 68 + - 9 * b) / 1024 + 1 / 2 :: rat\<rfloor>
           \<lfloor>of_int (1024 * 68 + - 9 * a) / 1024 + 1 / 2 :: rat\<rfloor> (red (getKeplerColor (Fin q)))"
    using channel_round_down[OF t ab, of 68 "- 9"] le by (simp add: getKeplerColor_def red_def Let_def)
  show "channel_in \<lfloor>of_int (1024 * 1 + 81 * a) / 1024 + 1 / 2 :: rat\<rfloor>
           \<lfloor>of_int (1024 * 1 + 81 * b) / 1024 + 1 / 2 :: rat\<rfloor> (green (getKeplerColor (Fin q)))"
    using channel_round_up[OF t ab, of 1 81] le by (simp add: getKeplerColor_def green_def Let_def)
  show "channel_in \<lfloor>of_int (1024 * 84 + 55 * a) / 1024 + 1 / 2 :: rat\<rfloor>
           \<lfloor>of_int (1024 * 84 + 55 * b) / 1024 + 1 / 2 :: rat\<rfloor> (blue (getKeplerColor (Fin q)))"
    using channel_round_up[OF t ab, of 84 55] le by (simp add: getKeplerColor_def blue_def Let_def)
  show "alpha (getKeplerColor (Fin q)) = Fin 200"
    using le by (simp add: getKeplerColor_def alpha_def Let_def)
qed

lemma seg2:
  assumes q: "1 / 4 + of_int a / 4096 \<le> q" "q \<le> 1 / 4 + of_int b / 4096" and lt: "1 / 4 < q"
    and ab: "0 \<le> a" "a \<le> 1024" "0 \<le> b" "b \<le> 1024"
  shows "channel_in \<lfloor>of_int (1024 * 59 + - 26 * b) / 1024 + 1 / 2 :: rat\<rfloor>
           \<lfloor>of_int (1024 * 59 + - 26 * a) / 1024 + 1 / 2 :: rat\<rfloor> (red (getKeplerColor (Fin q)))"
    and "channel_in \<lfloor>of_int (1024 * 82 + 62 * a) / 1024 + 1 / 2 :: rat\<rfloor>
           \<lfloor>of_int (1024 * 82 + 62 * b) / 1024 + 1 / 2 :: rat\<rfloor> (green (getKeplerColor (Fin q)))"
    and "channel_in \<lfloor>of_int (1024 * 139 + 1 * a) / 1024 + 1 / 2 :: rat\<rfloor>
           \<lfloor>of_int (1024 * 139 + 1 * b) / 1024 + 1 / 2 :: rat\<rfloor> (blue (getKeplerColor (Fin q)))"
    and "alpha (getKeplerColor (Fin q)) = Fin 200"
proof -
  have le: "q \<le> 1 / 4 + 1 / 4" using q(2) ab(4) by simp
  have t: "finite_in (of_int a / 1024) (of_int b / 1024) (jdiv (jsub (Fin q) (Fin (1 / 4))) (Fin (1 / 4)))"
    using q ab by (intro param_next) simp_all
  show "channel_in \<lfloor>of_int (1024 * 59 + - 26 * b) / 1024 + 1 / 2 :: rat\<rfloor>
           \<lfloor>of_int (1024 * 59 + - 26 * a) / 1024 + 1 / 2 :: rat\<rfloor> (red (getKeplerColor (Fin q)))"
    using channel_round_down[OF t ab, of 59 "- 26"] le lt by (simp add: getKeplerColor_def red_def Let_def)
  show "channel_in \<lfloor>of_int (1024 * 82 + 62 * a) / 1024 + 1 / 2 :: rat\<rfloor>
           \<lfloor>of_int (1024 * 82 + 62 * b) / 1024 + 1 / 2 :: rat\<rfloor> (green (getKeplerColor (Fin q)))"
    using channel_round_up[OF t ab, of 82 62] le lt by (simp add: getKeplerColor_def green_def Let_def)
  show "channel_in \<lfloor>of_int (1024 * 139 + 1 * a) / 1024 + 1 / 2 :: rat\<rfloor>
           \<lfloor>of_int (1024 * 139 + 1 * b) / 1024 + 1 / 2 :: rat\<rfloor> (blue (getKeplerColor (Fin q)))"
    using channel_round_up[OF t ab, of 139 1] le lt by (simp add: getKeplerColor_def blue_def Let_def)
  show "alpha (getKeplerColor (Fin q)) = Fin 200"
    using le lt by (simp add: getKeplerColor_def alpha_def Let_def)
qed

lemma seg3:
  assumes q: "1 / 2 + of_int a / 4096 \<le> q" "q \<le> 1 / 2 + of_int b / 4096" and lt: "1 / 2 < q"
    and ab: "0 \<le> a" "a \<le> 1024" "0 \<le> b" "b \<le> 1024"
  shows "channel_in \<lfloor>of_int (1024 * 33 + 61 * a) / 1024 + 1 / 2 :: rat\<rfloor>
           \<lfloor>of_int (1024 * 33 + 61 * b) / 1024 + 1 / 2 :: rat\<rfloor> (red (getKeplerColor (Fin q)))"
    and "channel_in \<lfloor>of_int (1024 * 144 + 57 * a) / 1024 + 1 / 2 :: rat\<rfloor>
           \<lfloor>of_int (1024 * 144 + 57 * b) / 1024 + 1 / 2 :: rat\<rfloor> (green (getKeplerColor (Fin q)))"
    and "channel_in \<lfloor>of_int (1024 * 140 + - 42 * b) / 1024 + 1 / 2 :: rat\<rfloor>
           \<lfloor>of_int (1024 * 140 + - 42 * a) / 1024 + 1 / 2 :: rat\<rfloor> (blue (getKeplerColor (Fin q)))"
    and "alpha (getKeplerColor (Fin q)) = Fin 200"
proof -
  have le: "q \<le> 1 / 2 + 1 / 4" using q(2) ab(4) by simp
  have t: "finite_in (of_int a / 1024) (of_int b / 1024) (jdiv (jsub (Fin q) (Fin (1 / 2))) (Fin (1 / 4)))"
    using q ab by (intro param_next) simp_all
  show "channel_in \<lfloor>of_int (1024 * 33 + 61 * a) / 1024 + 1 / 2 :: rat\<rfloor>
           \<lfloor>of_int (1024 * 33 + 61 * b) / 1024 + 1 / 2 :: rat\<rfloor> (red (getKeplerColor (Fin q)))"
    using channel_round_up[OF t ab, of 33 61] le lt by (simp add: getKeplerColor_def red_def Let_def)
  show "channel_in \<lfloor>of_int (1024 * 144 + 57 * a) / 1024 + 1 / 2 :: rat\<rfloor>
           \<lfloor>of_int (1024 * 144 + 57 * b) / 1024 + 1 / 2 :: rat\<rfloor> (green (getKeplerColor (Fin q)))"
    using channel_round_up[OF t ab, of 144 57] le lt by (simp add: getKeplerColor_def green_def Let_def)
  show "channel_in \<lfloor>of_int (1024 * 140 + - 42 * b) / 1024 + 1 / 2 :: rat\<rfloor>
           \<lfloor>of_int (1024 * 140 + - 42 * a) / 1024 + 1 / 2 :: rat\<rfloor> (blue (getKeplerColor (Fin q)))"
    using channel_round_down[OF t ab, of 140 "- 42"] le lt by (simp add: getKeplerColor_def blue_def Let_def)
  show "alpha (getKeplerColor (Fin q)) = Fin 200"
    using le lt by (simp add: getKeplerColor_def alpha_def Let_def)
qed

lemma seg4:
  assumes q: "3 / 4 + of_int a / 4096 \<le> q" "q \<le> 3 / 4 + of_int b / 4096" and lt: "3 / 4 < q"
    and ab: "0 \<le> a" "a \<le> 1024" "0 \<le> b" "b \<le> 1024"
  shows "channel_in \<lfloor>of_int (1024 * 94 + 159 * a) / 1024 + 1 / 2 :: rat\<rfloor>
           \<lfloor>of_int (1024 * 94 + 159 * b) / 1024 + 1 / 2 :: rat\<rfloor> (red (getKeplerColor (Fin q)))"
    and "channel_in \<lfloor>of_int (1024 * 201 + 30 * a) / 1024 + 1 / 2 :: rat\<rfloor>
           \<lfloor>of_int (1024 * 201 + 30 * b) / 1024 + 1 / 2 :: rat\<rfloor> (green (getKeplerColor (Fin q)))"
    and "channel_in \<lfloor>of_int (1024 * 98 + - 61 * b) / 1024 + 1 / 2 :: rat\<rfloor>
           \<lfloor>of_int (1024 * 98 + - 61 * a) / 1024 + 1 / 2 :: rat\<rfloor> (blue (getKeplerColor (Fin q)))"
    and "alpha (getKeplerColor (Fin q)) = Fin 200"
proof -
  have le: "q \<le> 3 / 4 + 1 / 4" using q(2) ab(4) by simp
  have t: "finite_in (of_int a / 1024) (of_int b / 1024) (jdiv (jsub (Fin q) (Fin (3 / 4))) (Fin (1 / 4)))"
    using q ab by (intro param_next) simp_all
  show "channel_in \<lfloor>of_int (1024 * 94 + 159 * a) / 1024 + 1 / 2 :: rat\<rfloor>
           \<lfloor>of_int (1024 * 94 + 159 * b) / 1024 + 1 / 2 :: rat\<rfloor> (red (getKeplerColor (Fin q)))"
    using channel_round_up[OF t ab, of 94 159] le lt by (simp add: getKeplerColor_def red_def Let_def)
  show "channel_in \<lfloor>of_int (1024 * 201 + 30 * a) / 1024 + 1 / 2 :: rat\<rfloor>
           \<lfloor>of_int (1024 * 201 + 30 * b) / 1024 + 1 / 2 :: rat\<rfloor> (green (getKeplerColor (Fin q)))"
    using channel_round_up[OF t ab, of 201 30] le lt by (simp add: getKeplerColor_def green_def Let_def)
  show "channel_in \<lfloor>of_int (1024 * 98 + - 61 * b) / 1024 + 1 / 2 :: rat\<rfloor>
           \<lfloor>of_int (1024 * 98 + - 61 * a) / 1024 + 1 / 2 :: rat\<rfloor> (blue (getKeplerColor (Fin q)))"
    using channel_round_down[OF t ab, of 98 "- 61"] le lt by (simp add: getKeplerColor_def blue_def Let_def)
  show "alpha (getKeplerColor (Fin q)) = Fin 200"
    using le lt by (simp add: getKeplerColor_def alpha_def Let_def)
qed

lemma channel_in_eq: "channel_in L L x \<Longrightarrow> x = Fin (of_int L)"
  by (cases x) (auto simp: channel_in_def)

lemma channel_in_mono: "channel_in L H x \<Longrightarrow> L' \<le> L \<Longrightarrow> H \<le> H' \<Longrightarrow> channel_in L' H' x"
  by (cases x) (auto simp: channel_in_def)

lemma rgba_eqI: "red c = r \<Longrightarrow> green c = g \<Longrightarrow> blue c = b \<Longrightarrow> alpha c = a \<Longrightarrow> c = (r, g, b, a)"
  by (cases c) (auto simp: red_def green_def blue_def alpha_def)

lemma first_segment:
  assumes "0 \<le> q" "q \<le> 1 / 4"
  shows "channel_in 59 68 (red (getKeplerColor (Fin q)))"
    and "channel_in 1 82 (green (getKeplerColor (Fin q)))"
    and "channel_in 84 139 (blue (getKeplerColor (Fin q)))"
  using seg1[of 0 q 1024] assms by simp_all

lemma second_segment:
  assumes "1 / 4 < q" "q \<le> 1 / 2"
  shows "channel_in 33 59 (red (getKeplerColor (Fin q)))"
    and "channel_in 82 144 (green (getKeplerColor (Fin q)))"
    and "channel_in 139 140 (blue (getKeplerColor (Fin q)))"
  using seg2[of 0 q 1024] assms by simp_all

lemma third_segment:
  assumes "1 / 2 < q" "q \<le> 3 / 4"
  shows "channel_in 33 94 (red (getKeplerColor (Fin q)))"
    and "channel_in 144 201 (green (getKeplerColor (Fin q)))"
    and "channel_in 98 140 (blue (getKeplerColor (Fin q)))"
  using seg3[of 0 q 1024] assms by simp_all

lemma fourth_segment:
  assumes "3 / 4 < q" "q \<le> 1"
  shows "channel_in 94 253 (red (getKeplerColor (Fin q)))"
    and "channel_in 201 231 (green (getKeplerColor (Fin q)))"
    and "channel_in 37 98 (blue (getKeplerColor (Fin q)))"
  using seg4[of 0 q 1024] assms by simp_all

lemma near_quarter:
  assumes "\<bar>q - 1 / 4\<bar> \<le> 1 / 4096"
  shows "getKeplerColor (Fin q) = (Fin 59, Fin 82, Fin 139, Fin 200)"
proof (cases "q \<le> 1 / 4")
  case True
  with assms have "of_int 1023 / 4096 \<le> q" "q \<le> of_int 1024 / 4096" by simp_all
  from seg1[OF this] show ?thesis
    by (intro rgba_eqI) (auto dest: channel_in_eq)
next
  case False
  with assms have "1 / 4 + of_int 0 / 4096 \<le> q" "q \<le> 1 / 4 + of_int 1 / 4096" "1 / 4 < q" by simp_all
  from seg2[OF this] show ?thesis
    by (intro rgba_eqI) (auto dest: channel_in_eq)
qed

lemma near_half:
  assumes "\<bar>q - 1 / 2\<bar> \<le> 1 / 4096"
  shows "getKeplerColor (Fin q) = (Fin 33, Fin 144, Fin 140, Fin 200)"
proof (cases "q \<le> 1 / 2")
  case True
  with assms have "1 / 4 + of_int 1023 / 4096 \<le> q" "q \<le> 1 / 4 + of_int 1024 / 4096" "1 / 4 < q" by simp_all
  from seg2[OF this] show ?thesis
    by (intro rgba_eqI) (auto dest: channel_in_eq)
next
  case False
  with assms have "1 / 2 + of_int 0 / 4096 \<le> q" "q \<le> 1 / 2 + of_int 1 / 4096" "1 / 2 < q" by simp_all
  from seg3[OF this] show ?thesis
    by (intro rgba_eqI) (auto dest: channel_in_eq)
qed

lemma near_three_quarters:
  assumes "\<bar>q - 3 / 4\<bar> \<le> 1 / 4096"
  shows "getKeplerColor (Fin q) = (Fin 94, Fin 201, Fin 98, Fin 200)"
proof (cases "q \<le> 3 / 4")
  case True
  with assms have "1 / 2 + of_int 1023 / 4096 \<le> q" "q \<le> 1 / 2 + of_int 1024 / 4096" "1 / 2 < q" by simp_all
  from seg3[OF this] show ?thesis
    by (intro rgba_eqI) (auto dest: channel_in_eq)
next
  case False
  with assms have "3 / 4 + of_int 0 / 4096 \<le> q" "q \<le> 3 / 4 + of_int 1 / 4096" "3 / 4 < q" by simp_all
  from seg4[OF this] show ?thesis
    by (intro rgba_eqI) (auto dest: channel_in_eq)
qed

text \<open>
  C1: at the two ends of the palette the color mapper returns the end colors exactly:
  \<open>getKeplerColor(0)\<close> is \<open>[68, 1, 84, 200]\<close> and \<open>getKeplerColor(1)\<close> is
  \<open>[253, 231, 37, 200]\<close>.
\<close>

theorem getKeplerColor_endpoints:
  "getKeplerColor (Fin 0) = (Fin 68, Fin 1, Fin 84, Fin 200) \<and>
   getKeplerColor (Fin 1) = (Fin 253, Fin 231, Fin 37, Fin 200)"
  by (simp add: getKeplerColor_def)

text \<open>
  C4: the color mapper is continuous at the three inner boundaries. Its values are
  integers, so this is stated in its strongest form: on both sides of 0.25, of 0.5 and of
  0.75, every input within \<open>1/4096\<close> of the boundary gets the color of the boundary, the
  triple that the two adjoining segments share.
\<close>

theorem getKeplerColor_continuous_at_boundaries:
  "(\<bar>q - 1 / 4\<bar> \<le> 1 / 4096 \<longrightarrow> getKeplerColor (Fin q) = (Fin 59, Fin 82, Fin 139, Fin 200)) \<and>
   (\<bar>q - 1 / 2\<bar> \<le> 1 / 4096 \<longrightarrow> getKeplerColor (Fin q) = (Fin 33, Fin 144, Fin 140, Fin 200)) \<and>
   (\<bar>q - 3 / 4\<bar> \<le> 1 / 4096 \<longrightarrow> getKeplerColor (Fin q) = (Fin 94, Fin 201, Fin 98, Fin 200))"
  using near_quarter[of q] near_half[of q] near_three_quarters[of q] by blast

theorem getKeplerColor_continuous_at_boundaries_witness:
  "\<bar>(2049 / 8192 :: rat) - 1 / 4\<bar> \<le> 1 / 4096 \<and>
   getKeplerColor (Fin (2049 / 8192)) = (Fin 59, Fin 82, Fin 139, Fin 200) \<and>
   \<bar>(4095 / 8192 :: rat) - 1 / 2\<bar> \<le> 1 / 4096 \<and>
   getKeplerColor (Fin (4095 / 8192)) = (Fin 33, Fin 144, Fin 140, Fin 200) \<and>
   \<bar>(6145 / 8192 :: rat) - 3 / 4\<bar> \<le> 1 / 4096 \<and>
   getKeplerColor (Fin (6145 / 8192)) = (Fin 94, Fin 201, Fin 98, Fin 200)"
  using getKeplerColor_continuous_at_boundaries[of "2049 / 8192"]
    getKeplerColor_continuous_at_boundaries[of "4095 / 8192"]
    getKeplerColor_continuous_at_boundaries[of "6145 / 8192"]
  by simp

text \<open>
  C10: for every input \<open>t\<close> with \<open>0 \<le> t \<le> 1\<close> the channels R, G and B are integers
  between 0 and 255, each between the two end values of its segment, and alpha is 200.
\<close>

theorem getKeplerColor_valid_rgb:
  assumes "jle (Fin 0) n" "jle n (Fin 1)"
  shows "channel_in 0 255 (red (getKeplerColor n)) \<and>
         channel_in 0 255 (green (getKeplerColor n)) \<and>
         channel_in 0 255 (blue (getKeplerColor n)) \<and>
         alpha (getKeplerColor n) = Fin 200 \<and>
         (jle n (Fin (1 / 4)) \<longrightarrow>
            channel_in 59 68 (red (getKeplerColor n)) \<and>
            channel_in 1 82 (green (getKeplerColor n)) \<and>
            channel_in 84 139 (blue (getKeplerColor n))) \<and>
         (\<not> jle n (Fin (1 / 4)) \<and> jle n (Fin (1 / 2)) \<longrightarrow>
            channel_in 33 59 (red (getKeplerColor n)) \<and>
            channel_in 82 144 (green (getKeplerColor n)) \<and>
            channel_in 139 140 (blue (getKeplerColor n))) \<and>
         (\<not> jle n (Fin (1 / 2)) \<and> jle n (Fin (3 / 4)) \<longrightarrow>
            channel_in 33 94 (red (getKeplerColor n)) \<and>
            channel_in 144 201 (green (getKeplerColor n)) \<and>
            channel_in 98 140 (blue (getKeplerColor n))) \<and>
         (\<not> jle n (Fin (3 / 4)) \<longrightarrow>
            channel_in 94 253 (red (getKeplerColor n)) \<and>
            channel_in 201 231 (green (getKeplerColor n)) \<and>
            channel_in 37 98 (blue (getKeplerColor n)))"
proof -
  from assms obtain q where n: "n = Fin q" and q: "0 \<le> q" "q \<le> 1"
    by (cases n) auto
  have a: "alpha (getKeplerColor (Fin q)) = Fin 200"
    by (simp add: getKeplerColor_def alpha_def Let_def)
  consider "q \<le> 1 / 4" | "1 / 4 < q" "q \<le> 1 / 2" | "1 / 2 < q" "q \<le> 3 / 4" | "3 / 4 < q"
    by linarith
  then show ?thesis
  proof cases
    case 1
    from first_segment[OF q(1) 1] show ?thesis
      using a 1 unfolding n by (auto elim: channel_in_mono)
  next
    case 2
    from second_segment[OF 2] show ?thesis
      using a 2 unfolding n by (auto elim: channel_in_mono)
  next
    case 3
    from third_segment[OF 3] show ?thesis
      using a 3 unfolding n by (auto elim: channel_in_mono)
  next
    case 4
    from fourth_segment[OF 4 q(2)] show ?thesis
      using a 4 unfolding n by (auto elim: channel_in_mono)
  qed
qed

theorem getKeplerColor_valid_rgb_witness:
  "jle (Fin 0) (Fin (1 / 8)) \<and> jle (Fin (1 / 8)) (Fin 1) \<and> jle (Fin (1 / 8)) (Fin (1 / 4)) \<and>
   channel_in 59 68 (red (getKeplerColor (Fin (1 / 8)))) \<and>
   jle (Fin 0) (Fin (3 / 8)) \<and> jle (Fin (3 / 8)) (Fin 1) \<and>
   \<not> jle (Fin (3 / 8)) (Fin (1 / 4)) \<and> jle (Fin (3 / 8)) (Fin (1 / 2)) \<and>
   channel_in 33 59 (red (getKeplerColor (Fin (3 / 8)))) \<and>
   jle (Fin 0) (Fin (5 / 8)) \<and> jle (Fin (5 / 8)) (Fin 1) \<and>
   \<not> jle (Fin (5 / 8)) (Fin (1 / 2)) \<and> jle (Fin (5 / 8)) (Fin (3 / 4)) \<and>
   channel_in 33 94 (red (getKeplerColor (Fin (5 / 8)))) \<and>
   jle (Fin 0) (Fin (7 / 8)) \<and> jle (Fin (7 / 8)) (Fin 1) \<and> \<not> jle (Fin (7 / 8)) (Fin (3 / 4)) \<and>
   channel_in 94 253 (red (getKeplerColor (Fin (7 / 8)))) \<and>
   channel_in 0 255 (blue (getKeplerColor (Fin (7 / 8))))"
  using getKeplerColor_valid_rgb[of "Fin (1 / 8)"] getKeplerColor_valid_rgb[of "Fin (3 / 8)"]
    getKeplerColor_valid_rgb[of "Fin (5 / 8)"] getKeplerColor_valid_rgb[of "Fin (7 / 8)"]
  by simp

section \<open>Properties of the data loader\<close>

text \<open>
  C8: when the load fails (the request or the reading of the body rejects), the loader
  returns the empty sequence and logs the error with \<open>console.error\<close>; its result is a
  sequence in every case, so no failure reaches the caller.
\<close>

theorem loadCSVData_failure_empty:
  "loadCSVData (FetchRejected e) = ([], [(ustr ''Error loading CSV data:'', e)]) \<and>
   loadCSVData (TextRejected e) = ([], [(ustr ''Error loading CSV data:'', e)])"
  by (simp add: loadCSVData_def)

section \<open>Properties of the range and of the view\<close>

lemma jlt_iff: "x \<noteq> NaN \<Longrightarrow> y \<noteq> NaN \<Longrightarrow> jlt x y \<longleftrightarrow> \<not> jle y x"
  by (cases x; cases y) auto

lemma jle_refl: "x \<noteq> NaN \<Longrightarrow> jle x x"
  by (cases x) auto

lemma jle_trans: "jle x y \<Longrightarrow> jle y z \<Longrightarrow> jle x z"
  by (cases x; cases y; cases z) auto

lemma jle_total: "x \<noteq> NaN \<Longrightarrow> y \<noteq> NaN \<Longrightarrow> jle x y \<or> jle y x"
  by (cases x; cases y) auto

lemma min_loop_least:
  assumes "\<forall>x\<in>set xs. x \<noteq> NaN" "l \<noteq> NaN"
  shows "(min_loop l xs = l \<or> min_loop l xs \<in> set xs) \<and> jle (min_loop l xs) l \<and>
         (\<forall>x\<in>set xs. jle (min_loop l xs) x)"
  using assms
proof (induction xs arbitrary: l)
  case Nil
  then show ?case by (simp add: jle_refl)
next
  case (Cons x xs)
  then have x: "x \<noteq> NaN" and xs: "\<forall>y\<in>set xs. y \<noteq> NaN" by simp_all
  show ?case
  proof (cases "jlt x l")
    case True
    then have "jle x l" using x Cons.prems(2) jlt_iff[of x l] jle_total[of x l] by blast
    with Cons.IH[OF xs x] True x show ?thesis
      by (auto simp: isNaN_def intro: jle_trans)
  next
    case False
    then have "jle l x" using x Cons.prems(2) jlt_iff[of x l] by blast
    with Cons.IH[OF xs Cons.prems(2)] False x show ?thesis
      by (auto simp: isNaN_def intro: jle_trans)
  qed
qed

lemma max_loop_greatest:
  assumes "\<forall>x\<in>set xs. x \<noteq> NaN" "h \<noteq> NaN"
  shows "(max_loop h xs = h \<or> max_loop h xs \<in> set xs) \<and> jle h (max_loop h xs) \<and>
         (\<forall>x\<in>set xs. jle x (max_loop h xs))"
  using assms
proof (induction xs arbitrary: h)
  case Nil
  then show ?case by (simp add: jle_refl)
next
  case (Cons x xs)
  then have x: "x \<noteq> NaN" and xs: "\<forall>y\<in>set xs. y \<noteq> NaN" by simp_all
  show ?case
  proof (cases "jlt h x")
    case True
    then have "jle h x" using x Cons.prems(2) jlt_iff[of h x] jle_total[of h x] by blast
    with Cons.IH[OF xs x] True x show ?thesis
      by (auto simp: isNaN_def intro: jle_trans)
  next
    case False
    then have "jle x h" using x Cons.prems(2) jlt_iff[of h x] by blast
    with Cons.IH[OF xs Cons.prems(2)] False x show ?thesis
      by (auto simp: isNaN_def intro: jle_trans)
  qed
qed

lemma Math_min_least:
  assumes "xs \<noteq> []" "\<forall>x\<in>set xs. x \<noteq> NaN"
  shows "Math_min xs \<in> set xs" and "\<forall>x\<in>set xs. jle (Math_min xs) x"
proof -
  from assms obtain y ys where xs: "xs = y # ys" by (cases xs) auto
  with assms have y: "y \<noteq> NaN" and ys: "\<forall>x\<in>set ys. x \<noteq> NaN" by simp_all
  have first: "(if jlt y PosInf then y else PosInf) = y" using y by (cases y) auto
  have eq: "Math_min (y # ys) = min_loop y ys"
    using y by (simp add: Math_min_def isNaN_def first)
  from min_loop_least[OF ys y] show "Math_min xs \<in> set xs" "\<forall>x\<in>set xs. jle (Math_min xs) x"
    unfolding xs eq by auto
qed

lemma Math_max_greatest:
  assumes "xs \<noteq> []" "\<forall>x\<in>set xs. x \<noteq> NaN"
  shows "Math_max xs \<in> set xs" and "\<forall>x\<in>set xs. jle x (Math_max xs)"
proof -
  from assms obtain y ys where xs: "xs = y # ys" by (cases xs) auto
  with assms have y: "y \<noteq> NaN" and ys: "\<forall>x\<in>set ys. x \<noteq> NaN" by simp_all
  have first: "(if jlt NegInf y then y else NegInf) = y" using y by (cases y) auto
  have eq: "Math_max (y # ys) = max_loop y ys"
    using y by (simp add: Math_max_def isNaN_def first)
  from max_loop_greatest[OF ys y] show "Math_max xs \<in> set xs" "\<forall>x\<in>set xs. jle x (Math_max xs)"
    unfolding xs eq by auto
qed

lemma loadCSVData_parse_no_NaN: "d \<in> set (loadCSVData_parse csvText) \<Longrightarrow> val_trans d \<noteq> NaN"
  by (auto simp: loadCSVData_parse_def isNaN_def)

lemma loadCSVData_no_NaN: "d \<in> set (fst (loadCSVData r)) \<Longrightarrow> val_trans d \<noteq> NaN"
  by (cases r) (auto simp: loadCSVData_def dest: loadCSVData_parse_no_NaN)

lemma loadData_range:
  assumes "fst (loadCSVData r) \<noteq> []" "length (fst (loadCSVData r)) \<le> max_args"
  shows "dataRange (fst (loadData max_args r s)) =
           \<lparr>range_min = Math_min (map val_trans (fst (loadCSVData r))),
            range_max = Math_max (map val_trans (fst (loadCSVData r)))\<rparr>"
  using assms by (cases "loadCSVData r") (simp add: loadData_def spread_call_def Let_def)

lemma loadData_data: "data (fst (loadData max_args r s)) = fst (loadCSVData r)"
  by (cases "loadCSVData r") (simp add: loadData_def spread_call_def Let_def)

lemma loadData_empty:
  assumes "fst (loadCSVData r) = []"
  shows "loading (fst (loadData max_args r s)) = False"
  using assms by (cases "loadCSVData r") (simp add: loadData_def Let_def)

lemma loadData_completes:
  assumes "length (fst (loadCSVData r)) \<le> max_args"
  shows "loading (fst (loadData max_args r s)) = False"
    and "snd (snd (loadData max_args r s)) = None"
  using assms by (cases "loadCSVData r"; simp add: loadData_def spread_call_def Let_def)+

text \<open>
  Beyond the engine's bound the first spread call throws: the records are stored, the
  range is not, and the state stays loading.
\<close>

lemma loadData_over_limit:
  assumes "max_args < length (fst (loadCSVData r))"
  shows "loadData max_args r s =
           (s\<lparr>loading := True, data := fst (loadCSVData r)\<rparr>, snd (loadCSVData r), Some RangeError)"
  using assms by (cases "loadCSVData r") (auto simp: loadData_def spread_call_def Let_def)

text \<open>
  Within the engine's bound, the range that \<open>loadData\<close> stores for a non-empty sequence
  of records satisfies \<open>min \<le> v \<le> max\<close> for the value \<open>v\<close> of every record, and \<open>min\<close>
  and \<open>max\<close> are values of the sequence.
\<close>

lemma dataRange_is_min_max_within_limit:
  assumes "fst (loadCSVData r) \<noteq> []" "length (fst (loadCSVData r)) \<le> max_args"
  shows "(\<forall>d\<in>set (fst (loadCSVData r)).
            jle (range_min (dataRange (fst (loadData max_args r s)))) (val_trans d) \<and>
            jle (val_trans d) (range_max (dataRange (fst (loadData max_args r s))))) \<and>
         range_min (dataRange (fst (loadData max_args r s))) \<in> set (map val_trans (fst (loadCSVData r))) \<and>
         range_max (dataRange (fst (loadData max_args r s))) \<in> set (map val_trans (fst (loadCSVData r)))"
proof -
  let ?vs = "map val_trans (fst (loadCSVData r))"
  have ne: "?vs \<noteq> []" using assms by simp
  have nn: "\<forall>x\<in>set ?vs. x \<noteq> NaN" by (auto dest: loadCSVData_no_NaN)
  from Math_min_least[OF ne nn] Math_max_greatest[OF ne nn] show ?thesis
    by (simp add: loadData_range[OF assms])
qed

lemma parseFloat_undefined: "parseFloat None = NaN"
  by code_simp

lemma index_None_mono: "index xs i = None \<Longrightarrow> i \<le> j \<Longrightarrow> index xs j = None"
  by (auto simp: index_def split: if_splits)

lemma dropped_iff:
  "\<not> (truthy (h3index (parse_line line)) \<and> \<not> isNaN (val_trans (parse_line line))) \<longleftrightarrow> spec_dropped line"
proof (cases "index (split 0x2C line) 2")
  case None
  then have "index (split 0x2C line) 4 = None" by (rule index_None_mono) simp
  with None show ?thesis
    by (simp add: parse_line_def spec_dropped_def spec_field_def truthy_def isNaN_def parseFloat_undefined Let_def)
next
  case (Some a)
  then show ?thesis
    by (simp add: parse_line_def spec_dropped_def spec_field_def truthy_def Let_def)
qed

text \<open>
  C2: for every CSV text, the number of records the loader returns is the number of
  non-blank lines after the header minus the number of those lines whose third field
  is empty or whose fifth field parses to NaN.
\<close>

theorem loadCSVData_length:
  "length (fst (loadCSVData (ResponseText csvText))) =
     length (spec_data_lines csvText) - length (filter spec_dropped (spec_data_lines csvText))"
proof -
  let ?keep = "\<lambda>line. truthy (h3index (parse_line line)) \<and> \<not> isNaN (val_trans (parse_line line))"
  have kept: "length (fst (loadCSVData (ResponseText csvText)))
      = length (filter ?keep (spec_data_lines csvText))"
    by (simp add: loadCSVData_def loadCSVData_parse_def spec_data_lines_def filter_map comp_def)
  have dropped: "filter spec_dropped (spec_data_lines csvText)
      = filter (\<lambda>line. \<not> ?keep line) (spec_data_lines csvText)"
    by (rule filter_cong) (simp_all only: dropped_iff)
  have "length (filter ?keep (spec_data_lines csvText))
      + length (filter (\<lambda>line. \<not> ?keep line) (spec_data_lines csvText)) = length (spec_data_lines csvText)"
    by (rule sum_length_filter_compl)
  then show ?thesis unfolding kept dropped by linarith
qed

text \<open>
  C9: whenever the loader returns no record, the view rendered once \<open>loadData\<close> has
  completed is the error message: there is no map and no polygon layer.
\<close>

theorem empty_dataset_renders_error:
  assumes "fst (loadCSVData r) = []"
  shows "App cellToLatLng (fst (loadData max_args r s)) = Inr ErrorMessage"
  using assms by (simp add: App_def loadData_data loadData_empty)

lemma split_no_separator: "sep \<notin> set s \<Longrightarrow> split sep s = [s]"
  by (induction s) auto

subsection \<open>The scenarios of the specification\<close>

lemma ustr_eq_Nil [simp]: "ustr s = [] \<longleftrightarrow> s = []"
  by (simp add: ustr_def)

lemma parseFloat_digit:
  assumes "isDigit c"
  shows "parseFloat (Some (c # r)) = (case parse_unsigned (c # r) of None \<Rightarrow> NaN | Some q \<Rightarrow> fl q)"
proof -
  have c: "48 \<le> c" "c \<le> 57" using assms by (simp_all add: isDigit_def)
  have ws: "\<not> isWhiteSpace c"
    unfolding isWhiteSpace_def using c by (auto simp: word_le_def)
  have sign: "c \<noteq> 0x2D" "c \<noteq> 0x2B" using c by auto
  have "hd (ustr ''Infinity'') = 0x49" by (simp add: ustr_def)
  moreover have "c \<noteq> 0x49" using c by auto
  ultimately have inf: "take 8 (c # r) \<noteq> ustr ''Infinity''"
    by (auto simp: ustr_def)
  show ?thesis
    using ws sign inf by (simp add: parseFloat_def parseFloat_string_def split: option.splits)
qed

lemma parseFloat_5_0: "parseFloat (Some (ustr ''5.0'')) = Fin 5"
proof -
  have "parse_unsigned (ustr ''5.0'') = Some 5" by code_simp
  moreover have "ustr ''5.0'' = 0x35 # ustr ''.0''" by (simp add: ustr_def)
  moreover have "isDigit 0x35" by (simp add: isDigit_def)
  ultimately show ?thesis using parseFloat_digit[of "0x35" "ustr ''.0''"] by simp
qed


lemma parseFloat_15_0: "parseFloat (Some (ustr ''15.0'')) = Fin 15"
proof -
  have "parse_unsigned (ustr ''15.0'') = Some 15" by code_simp
  moreover have "ustr ''15.0'' = 0x31 # ustr ''5.0''" by (simp add: ustr_def)
  moreover have "isDigit 0x31" by (simp add: isDigit_def)
  ultimately show ?thesis using parseFloat_digit[of "0x31" "ustr ''5.0''"] by simp
qed

lemma scenario_load:
  "loadCSVData_parse (ustr
     ''city,loc,id,code,val\<newline>Mumbai,Andheri,8960100000000,A1,5.0\<newline>Mumbai,Bandra,8960100000001,A2,15.0'') =
   [\<lparr>city = Some (ustr ''Mumbai''), locality = Some (ustr ''Andheri''),
     h3index = Some (ustr ''8960100000000''), poiCode = Some (ustr ''A1''), val_trans = Fin 5\<rparr>,
    \<lparr>city = Some (ustr ''Mumbai''), locality = Some (ustr ''Bandra''),
     h3index = Some (ustr ''8960100000001''), poiCode = Some (ustr ''A2''), val_trans = Fin 15\<rparr>]"
proof -
  have lines: "split 0x0A (ustr
     ''city,loc,id,code,val\<newline>Mumbai,Andheri,8960100000000,A1,5.0\<newline>Mumbai,Bandra,8960100000001,A2,15.0'')
     = [ustr ''city,loc,id,code,val'', ustr ''Mumbai,Andheri,8960100000000,A1,5.0'',
        ustr ''Mumbai,Bandra,8960100000001,A2,15.0'']"
    by code_simp
  have t: "trim (ustr ''Mumbai,Andheri,8960100000000,A1,5.0'') \<noteq> []"
    "trim (ustr ''Mumbai,Bandra,8960100000001,A2,15.0'') \<noteq> []"
    by code_simp+
  have v: "split 0x2C (ustr ''Mumbai,Andheri,8960100000000,A1,5.0'') =
      [ustr ''Mumbai'', ustr ''Andheri'', ustr ''8960100000000'', ustr ''A1'', ustr ''5.0'']"
    "split 0x2C (ustr ''Mumbai,Bandra,8960100000001,A2,15.0'') =
      [ustr ''Mumbai'', ustr ''Bandra'', ustr ''8960100000001'', ustr ''A2'', ustr ''15.0'']"
    by code_simp+
  show ?thesis
    by (simp add: loadCSVData_parse_def lines t parse_line_def v index_def parseFloat_5_0 parseFloat_15_0 truthy_def isNaN_def)
qed

lemma scenario_range:
  "Math_min [Fin 5, Fin 15] = Fin 5" "Math_max [Fin 5, Fin 15] = Fin 15"
  by (simp_all add: Math_min_def Math_max_def isNaN_def)

lemma scenario_view:
  assumes "2 \<le> max_args" "cellToLatLng (Some (ustr ''8960100000000'')) = Inr center"
  shows "App cellToLatLng (fst (loadData max_args (ResponseText (ustr
     ''city,loc,id,code,val\<newline>Mumbai,Andheri,8960100000000,A1,5.0\<newline>Mumbai,Bandra,8960100000001,A2,15.0'')) initial_state)) =
   Inr (MapView center
     [(Some (ustr ''8960100000000''), (Fin 68, Fin 1, Fin 84, Fin 200)),
      (Some (ustr ''8960100000001''), (Fin 253, Fin 231, Fin 37, Fin 200))])"
proof -
  have zero: "getKeplerColor (Fin 0) = (Fin 68, Fin 1, Fin 84, Fin 200)"
    by (simp add: getKeplerColor_def)
  have one: "getKeplerColor (Fin 1) = (Fin 253, Fin 231, Fin 37, Fin 200)"
    by (simp add: getKeplerColor_def)
  show ?thesis
    using assms
    by (simp add: App_def hexLayer_def loadData_def spread_call_def loadCSVData_def
        scenario_load scenario_range getFillColor_def normalized_value_def zero one)
qed

lemma scenario_range_stored:
  assumes "2 \<le> max_args"
  shows "map val_trans (fst (loadCSVData (ResponseText (ustr
     ''city,loc,id,code,val\<newline>Mumbai,Andheri,8960100000000,A1,5.0\<newline>Mumbai,Bandra,8960100000001,A2,15.0'')))) = [Fin 5, Fin 15]"
    and "loadData max_args (ResponseText (ustr
     ''city,loc,id,code,val\<newline>Mumbai,Andheri,8960100000000,A1,5.0\<newline>Mumbai,Bandra,8960100000001,A2,15.0'')) initial_state =
     (\<lparr>data = fst (loadCSVData (ResponseText (ustr
        ''city,loc,id,code,val\<newline>Mumbai,Andheri,8960100000000,A1,5.0\<newline>Mumbai,Bandra,8960100000001,A2,15.0''))),
       loading = False, dataRange = \<lparr>range_min = Fin 5, range_max = Fin 15\<rparr>\<rparr>, [], None)"
  using assms
  by (simp_all add: loadCSVData_def scenario_load loadData_def spread_call_def scenario_range
      initial_state_def)

lemma header_only: "loadCSVData_parse (ustr ''city,loc,id,code,val'') = []"
proof -
  have "split 0x0A (ustr ''city,loc,id,code,val'') = [ustr ''city,loc,id,code,val'']" by code_simp
  then show ?thesis by (simp add: loadCSVData_parse_def)
qed

theorem empty_dataset_renders_error_witness:
  "fst (loadCSVData (ResponseText (ustr ''city,loc,id,code,val''))) = [] \<and>
   App (\<lambda>cell. Inl H3Error)
     (fst (loadData 125000 (ResponseText (ustr ''city,loc,id,code,val'')) initial_state))
     = Inr ErrorMessage"
  using empty_dataset_renders_error[of "ResponseText (ustr ''city,loc,id,code,val'')"
      "\<lambda>cell. Inl H3Error" 125000 initial_state]
  by (simp add: loadCSVData_def header_only)

lemma example_lines:
  "spec_data_lines (ustr
     ''c,l,id,p,v\<newline>M,A,89,A1,5.0\<newline>\<newline>M,B,,A2,7\<newline>M,C,8a,A3\<newline>M,D,8b,A4,x\<newline>M,E,8c,A5,15.0'') =
   [ustr ''M,A,89,A1,5.0'', ustr ''M,B,,A2,7'', ustr ''M,C,8a,A3'', ustr ''M,D,8b,A4,x'',
    ustr ''M,E,8c,A5,15.0'']"
  by code_simp

lemma example_dropped:
  "\<not> spec_dropped (ustr ''M,A,89,A1,5.0'')"
  "spec_dropped (ustr ''M,B,,A2,7'')"
  "spec_dropped (ustr ''M,C,8a,A3'')"
  "spec_dropped (ustr ''M,D,8b,A4,x'')"
  "\<not> spec_dropped (ustr ''M,E,8c,A5,15.0'')"
proof -
  have v: "split 0x2C (ustr ''M,A,89,A1,5.0'') = [ustr ''M'', ustr ''A'', ustr ''89'', ustr ''A1'', ustr ''5.0'']"
    "split 0x2C (ustr ''M,B,,A2,7'') = [ustr ''M'', ustr ''B'', [], ustr ''A2'', ustr ''7'']"
    "split 0x2C (ustr ''M,C,8a,A3'') = [ustr ''M'', ustr ''C'', ustr ''8a'', ustr ''A3'']"
    "split 0x2C (ustr ''M,D,8b,A4,x'') = [ustr ''M'', ustr ''D'', ustr ''8b'', ustr ''A4'', ustr ''x'']"
    "split 0x2C (ustr ''M,E,8c,A5,15.0'') = [ustr ''M'', ustr ''E'', ustr ''8c'', ustr ''A5'', ustr ''15.0'']"
    by code_simp+
  have x: "parseFloat (Some (ustr ''x'')) = NaN" by code_simp
  show "\<not> spec_dropped (ustr ''M,A,89,A1,5.0'')"
    by (simp add: spec_dropped_def spec_field_def v index_def parseFloat_5_0 isNaN_def)
  show "spec_dropped (ustr ''M,B,,A2,7'')"
    by (simp add: spec_dropped_def spec_field_def v index_def)
  show "spec_dropped (ustr ''M,C,8a,A3'')"
    by (simp add: spec_dropped_def spec_field_def v index_def parseFloat_undefined isNaN_def)
  show "spec_dropped (ustr ''M,D,8b,A4,x'')"
    by (simp add: spec_dropped_def spec_field_def v index_def x isNaN_def)
  show "\<not> spec_dropped (ustr ''M,E,8c,A5,15.0'')"
    by (simp add: spec_dropped_def spec_field_def v index_def parseFloat_15_0 isNaN_def)
qed

theorem loadCSVData_length_witness:
  "length (spec_data_lines (ustr
     ''c,l,id,p,v\<newline>M,A,89,A1,5.0\<newline>\<newline>M,B,,A2,7\<newline>M,C,8a,A3\<newline>M,D,8b,A4,x\<newline>M,E,8c,A5,15.0'')) = 5 \<and>
   length (filter spec_dropped (spec_data_lines (ustr
     ''c,l,id,p,v\<newline>M,A,89,A1,5.0\<newline>\<newline>M,B,,A2,7\<newline>M,C,8a,A3\<newline>M,D,8b,A4,x\<newline>M,E,8c,A5,15.0''))) = 3 \<and>
   length (fst (loadCSVData (ResponseText (ustr
     ''c,l,id,p,v\<newline>M,A,89,A1,5.0\<newline>\<newline>M,B,,A2,7\<newline>M,C,8a,A3\<newline>M,D,8b,A4,x\<newline>M,E,8c,A5,15.0'')))) = 2"
  using loadCSVData_length[of "ustr
     ''c,l,id,p,v\<newline>M,A,89,A1,5.0\<newline>\<newline>M,B,,A2,7\<newline>M,C,8a,A3\<newline>M,D,8b,A4,x\<newline>M,E,8c,A5,15.0''"]
  by (simp add: example_lines example_dropped)

section \<open>Numbers that are not finite\<close>

lemma jsub_simps [simp]:
  "jsub NaN y = NaN" "jsub x NaN = NaN"
  "jsub PosInf PosInf = NaN" "jsub NegInf NegInf = NaN"
  "jsub PosInf (Fin b) = PosInf" "jsub NegInf (Fin b) = NegInf"
  "jsub (Fin a) PosInf = NegInf" "jsub (Fin a) NegInf = PosInf"
  "jsub PosInf NegInf = PosInf" "jsub NegInf PosInf = NegInf"
  by (cases x; cases y; simp add: jsub_def)+

lemma fl_not_NaN [simp]: "fl x \<noteq> NaN"
  by (simp add: fl_def Let_def)

lemma jdiv_zero_nonfinite: "\<not> isFinite (jdiv x (Fin 0))"
  by (cases x) (simp_all add: isFinite_def)

lemma normalized_nonfinite:
  assumes "range_min dr = range_max dr"
  shows "\<not> isFinite (normalized_value dr d)"
proof (cases "range_min dr")
  case (Fin a)
  then have "jsub (range_max dr) (range_min dr) = Fin 0" using assms by simp
  then show ?thesis by (simp add: normalized_value_def Let_def jdiv_zero_nonfinite)
next
  case NaN
  then show ?thesis using assms by (simp add: normalized_value_def Let_def isFinite_def)
next
  case NegInf
  then have "jsub (range_max dr) (range_min dr) = NaN" using assms by simp
  then show ?thesis by (cases "jsub (val_trans d) (range_min dr)") (simp_all add: normalized_value_def Let_def isFinite_def)
next
  case PosInf
  then have "jsub (range_max dr) (range_min dr) = NaN" using assms by simp
  then show ?thesis by (cases "jsub (val_trans d) (range_min dr)") (simp_all add: normalized_value_def Let_def isFinite_def)
qed

lemma normalized_at_min:
  assumes "range_min dr = range_max dr" "val_trans d = range_min dr"
  shows "normalized_value dr d = NaN"
proof -
  have "jdiv (jsub m m) (jsub m m) = NaN" for m
    by (cases m) simp_all
  then show ?thesis using assms by (simp add: normalized_value_def Let_def)
qed

lemma getKeplerColor_NaN: "getKeplerColor NaN = (NaN, NaN, NaN, Fin 200)"
  by (simp add: getKeplerColor_def)

lemma getKeplerColor_PosInf: "getKeplerColor PosInf = (PosInf, PosInf, NegInf, Fin 200)"
  by (simp add: getKeplerColor_def)

lemma getKeplerColor_NegInf: "getKeplerColor NegInf = (PosInf, NegInf, NegInf, Fin 200)"
  by (simp add: getKeplerColor_def)

lemma getKeplerColor_nonfinite:
  assumes "\<not> isFinite n"
  shows "\<not> isFinite (red (getKeplerColor n))" "\<not> isFinite (green (getKeplerColor n))"
    "\<not> isFinite (blue (getKeplerColor n))" "alpha (getKeplerColor n) = Fin 200"
  using assms
  by (cases n; simp add: getKeplerColor_NaN getKeplerColor_PosInf getKeplerColor_NegInf
        isFinite_def red_def green_def blue_def alpha_def)+

text \<open>
  C5: when the range has \<open>min\<close> equal to \<open>max\<close>, the normalization of \<open>getFillColor\<close>
  divides by zero: for every record the normalized value is NaN or an infinity, nothing
  guards the division, and the color returned has R, G and B that are NaN or infinite
  (alpha stays 200). For a record whose value is \<open>min\<close>, as all records of such a dataset
  are, the color is \<open>[NaN, NaN, NaN, 200]\<close>.
\<close>

theorem equal_range_degenerate_color:
  assumes "range_min dr = range_max dr"
  shows "\<not> isFinite (normalized_value dr d) \<and>
         \<not> isFinite (red (getFillColor dr d)) \<and>
         \<not> isFinite (green (getFillColor dr d)) \<and>
         \<not> isFinite (blue (getFillColor dr d)) \<and>
         alpha (getFillColor dr d) = Fin 200 \<and>
         (val_trans d = range_min dr \<longrightarrow> getFillColor dr d = (NaN, NaN, NaN, Fin 200))"
  using normalized_nonfinite[OF assms, of d]
    getKeplerColor_nonfinite[of "normalized_value dr d"] normalized_at_min[OF assms, of d]
  by (simp add: getFillColor_def getKeplerColor_NaN)

lemma single_load:
  "loadCSVData_parse (ustr ''city,loc,id,code,val\<newline>Mumbai,Andheri,8960100000000,A1,5.0'') =
   [\<lparr>city = Some (ustr ''Mumbai''), locality = Some (ustr ''Andheri''),
     h3index = Some (ustr ''8960100000000''), poiCode = Some (ustr ''A1''), val_trans = Fin 5\<rparr>]"
proof -
  have lines: "split 0x0A (ustr ''city,loc,id,code,val\<newline>Mumbai,Andheri,8960100000000,A1,5.0'')
     = [ustr ''city,loc,id,code,val'', ustr ''Mumbai,Andheri,8960100000000,A1,5.0'']"
    by code_simp
  have t: "trim (ustr ''Mumbai,Andheri,8960100000000,A1,5.0'') \<noteq> []"
    by code_simp
  have v: "split 0x2C (ustr ''Mumbai,Andheri,8960100000000,A1,5.0'') =
      [ustr ''Mumbai'', ustr ''Andheri'', ustr ''8960100000000'', ustr ''A1'', ustr ''5.0'']"
    by code_simp
  show ?thesis
    by (simp add: loadCSVData_parse_def lines t parse_line_def v index_def parseFloat_5_0 truthy_def isNaN_def)
qed

theorem equal_range_degenerate_color_witness:
  "dataRange (fst (loadData 125000 (ResponseText (ustr
      ''city,loc,id,code,val\<newline>Mumbai,Andheri,8960100000000,A1,5.0'')) initial_state))
     = \<lparr>range_min = Fin 5, range_max = Fin 5\<rparr> \<and>
   range_min \<lparr>range_min = Fin 5, range_max = Fin 5\<rparr> = range_max \<lparr>range_min = Fin 5, range_max = Fin 5\<rparr> \<and>
   getFillColor \<lparr>range_min = Fin 5, range_max = Fin 5\<rparr>
     \<lparr>city = Some (ustr ''Mumbai''), locality = Some (ustr ''Andheri''),
      h3index = Some (ustr ''8960100000000''), poiCode = Some (ustr ''A1''), val_trans = Fin 5\<rparr>
     = (NaN, NaN, NaN, Fin 200) \<and>
   hexLayer (fst (loadData 125000 (ResponseText (ustr
      ''city,loc,id,code,val\<newline>Mumbai,Andheri,8960100000000,A1,5.0'')) initial_state))
     = [(Some (ustr ''8960100000000''), (NaN, NaN, NaN, Fin 200))]"
  using equal_range_degenerate_color[of "\<lparr>range_min = Fin 5, range_max = Fin 5\<rparr>"
      "\<lparr>city = Some (ustr ''Mumbai''), locality = Some (ustr ''Andheri''),
        h3index = Some (ustr ''8960100000000''), poiCode = Some (ustr ''A1''), val_trans = Fin 5\<rparr>"]
  by (simp add: loadCSVData_def single_load loadData_def spread_call_def hexLayer_def
      Math_min_def Math_max_def isNaN_def)

section \<open>A sequence longer than the engine's bound\<close>

lemma split_append_sep: "sep \<notin> set a \<Longrightarrow> split sep (a @ sep # b) = a # split sep b"
  by (induction a) auto

lemma split_rows:
  assumes "sep \<notin> set row"
  shows "sep \<notin> set h \<Longrightarrow> split sep (h @ concat (replicate n (sep # row))) = h # replicate n row"
proof (induction n arbitrary: h)
  case 0
  then show ?case by (simp add: split_no_separator)
next
  case (Suc n)
  have "split sep (h @ concat (replicate (Suc n) (sep # row)))
      = split sep (h @ sep # (row @ concat (replicate n (sep # row))))" by simp
  also have "\<dots> = h # split sep (row @ concat (replicate n (sep # row)))"
    using Suc.prems by (rule split_append_sep)
  also have "\<dots> = h # row # replicate n row" using Suc.IH[OF assms] by simp
  finally show ?case by simp
qed

lemma loadCSVData_parse_rows:
  assumes "0x0A \<notin> set h" "0x0A \<notin> set row" "trim row \<noteq> []"
    and "truthy (h3index (parse_line row))" "\<not> isNaN (val_trans (parse_line row))"
  shows "loadCSVData_parse (h @ concat (replicate n (0x0A # row))) = replicate n (parse_line row)"
  using assms by (simp add: loadCSVData_parse_def split_rows filter_replicate)

lemma parse_line_row:
  "parse_line (ustr ''Mumbai,Andheri,8960100000000,A1,5.0'') =
     \<lparr>city = Some (ustr ''Mumbai''), locality = Some (ustr ''Andheri''),
       h3index = Some (ustr ''8960100000000''), poiCode = Some (ustr ''A1''), val_trans = Fin 5\<rparr>"
proof -
  have "split 0x2C (ustr ''Mumbai,Andheri,8960100000000,A1,5.0'') =
      [ustr ''Mumbai'', ustr ''Andheri'', ustr ''8960100000000'', ustr ''A1'', ustr ''5.0'']"
    by code_simp
  then show ?thesis by (simp add: parse_line_def index_def parseFloat_5_0)
qed

lemma long_response:
  "loadCSVData (ResponseText (ustr ''city,loc,id,code,val'' @ concat (replicate 130000 (ustr ''\<newline>Mumbai,Andheri,8960100000000,A1,5.0'')))) =
     (replicate 130000
        \<lparr>city = Some (ustr ''Mumbai''), locality = Some (ustr ''Andheri''),
       h3index = Some (ustr ''8960100000000''), poiCode = Some (ustr ''A1''), val_trans = Fin 5\<rparr>, [])"
proof -
  have h: "0x0A \<notin> set (ustr ''city,loc,id,code,val'')" by code_simp
  have row: "0x0A \<notin> set (ustr ''Mumbai,Andheri,8960100000000,A1,5.0'')" by code_simp
  have t: "trim (ustr ''Mumbai,Andheri,8960100000000,A1,5.0'') \<noteq> []" by code_simp
  have eq: "ustr ''\<newline>Mumbai,Andheri,8960100000000,A1,5.0'' = 0x0A # ustr ''Mumbai,Andheri,8960100000000,A1,5.0''" by (simp add: ustr_def)
  have keep: "truthy (h3index (parse_line (ustr ''Mumbai,Andheri,8960100000000,A1,5.0'')))"
    "\<not> isNaN (val_trans (parse_line (ustr ''Mumbai,Andheri,8960100000000,A1,5.0'')))"
    by (simp_all add: parse_line_row truthy_def isNaN_def)
  from loadCSVData_parse_rows[OF h row t keep, of 130000] show ?thesis
    by (simp only: loadCSVData_def eq parse_line_row fetch_result.case)
qed

text \<open>
  C3: the range is the minimum and the maximum of every non-empty sequence of records.
  The code does not compute it for a long sequence. For a response of 130000 rows and an
  engine that takes fewer than 130000 arguments in a call, \<open>Math.min(...values)\<close> throws a
  \<open>RangeError\<close> that nothing catches: the records are stored but no range is, the state
  stays loading, and the view is the loading message for ever.
\<close>

theorem loadData_spread_RangeError:
  assumes "max_args < 130000"
  shows "length (fst (loadCSVData (ResponseText (ustr ''city,loc,id,code,val'' @ concat (replicate 130000 (ustr ''\<newline>Mumbai,Andheri,8960100000000,A1,5.0'')))))) = 130000 \<and>
         loadData max_args (ResponseText (ustr ''city,loc,id,code,val'' @ concat (replicate 130000 (ustr ''\<newline>Mumbai,Andheri,8960100000000,A1,5.0'')))) initial_state =
           (initial_state\<lparr>data := replicate 130000
              \<lparr>city = Some (ustr ''Mumbai''), locality = Some (ustr ''Andheri''),
       h3index = Some (ustr ''8960100000000''), poiCode = Some (ustr ''A1''), val_trans = Fin 5\<rparr>\<rparr>,
            [], Some RangeError) \<and>
         dataRange (fst (loadData max_args (ResponseText (ustr ''city,loc,id,code,val'' @ concat (replicate 130000 (ustr ''\<newline>Mumbai,Andheri,8960100000000,A1,5.0'')))) initial_state)) =
           \<lparr>range_min = Fin 0, range_max = Fin 0\<rparr> \<and>
         App cellToLatLng (fst (loadData max_args (ResponseText (ustr ''city,loc,id,code,val'' @ concat (replicate 130000 (ustr ''\<newline>Mumbai,Andheri,8960100000000,A1,5.0'')))) initial_state)) =
           Inr LoadingMessage"
proof -
  have over: "max_args < length (fst (loadCSVData (ResponseText (ustr ''city,loc,id,code,val'' @ concat (replicate 130000 (ustr ''\<newline>Mumbai,Andheri,8960100000000,A1,5.0''))))))"
    using assms by (simp add: long_response)
  show ?thesis
    by (simp add: loadData_over_limit[OF over] long_response initial_state_def App_def)
qed

theorem loadData_spread_RangeError_witness:
  "(125000 :: nat) < 130000 \<and>
   loadData 125000 (ResponseText (ustr ''city,loc,id,code,val'' @ concat (replicate 130000 (ustr ''\<newline>Mumbai,Andheri,8960100000000,A1,5.0'')))) initial_state =
     (initial_state\<lparr>data := replicate 130000
        \<lparr>city = Some (ustr ''Mumbai''), locality = Some (ustr ''Andheri''),
       h3index = Some (ustr ''8960100000000''), poiCode = Some (ustr ''A1''), val_trans = Fin 5\<rparr>\<rparr>,
      [], Some RangeError) \<and>
   App (\<lambda>cell. Inl H3Error)
     (fst (loadData 125000 (ResponseText (ustr ''city,loc,id,code,val'' @ concat (replicate 130000 (ustr ''\<newline>Mumbai,Andheri,8960100000000,A1,5.0'')))) initial_state)) = Inr LoadingMessage"
proof -
  have h: "(125000 :: nat) < 130000" by simp
  from loadData_spread_RangeError[OF h, of "\<lambda>cell. Inl H3Error"] h show ?thesis by blast
qed

section \<open>The channels are rounded\<close>

text \<open>
  C6 as it is stated fails: at the input NaN, which \<open>getFillColor\<close> passes whenever
  the range has \<open>min\<close> equal to \<open>max\<close>, no channel but alpha is an integer.
\<close>

theorem getKeplerColor_NaN_not_integer:
  "getKeplerColor NaN = (NaN, NaN, NaN, Fin 200) \<and>
   \<not> isInteger (red (getKeplerColor NaN)) \<and>
   \<not> isInteger (green (getKeplerColor NaN)) \<and>
   \<not> isInteger (blue (getKeplerColor NaN))"
  by (simp add: getKeplerColor_NaN red_def green_def blue_def isInteger_def)

lemma big_param_first:
  assumes "\<bar>q\<bar> \<le> 2 powi e" "- 1074 \<le> e" "e \<le> 1000"
  shows "finite_in (- (2 powi (e + 3))) (2 powi (e + 3)) (jdiv (Fin q) (Fin (1 / 4)))"
proof -
  have "(2::rat) powi (e + 3) = 8 * 2 powi e"
    using two_powi_split[of 3 e "e + 3"] by simp
  then have "\<bar>q / (1 / 4)\<bar> \<le> 2 powi (e + 3)" using assms(1) by simp
  then have "finite_in (- (2 powi (e + 3))) (2 powi (e + 3)) (fl (q / (1 / 4)))"
    using assms(2,3) by (intro fl_bounded) simp_all
  then show ?thesis by simp
qed

lemma big_param_next:
  assumes "\<bar>q\<bar> \<le> 2 powi e" "0 \<le> e" "e \<le> 1000" "\<bar>c\<bar> \<le> 1"
  shows "finite_in (- (2 powi (e + 3))) (2 powi (e + 3)) (jdiv (jsub (Fin q) (Fin c)) (Fin (1 / 4)))"
proof -
  have one: "1 \<le> (2::rat) powi e" using two_powi_mono[of 0 e] assms(2) by simp
  have "\<bar>q - c\<bar> \<le> 2 powi e + 1" using assms(1,4) by linarith
  also have "\<dots> \<le> 2 powi (e + 1)" using one by (simp add: two_powi_double)
  finally have "finite_in (- (2 powi (e + 1))) (2 powi (e + 1)) (fl (q - c))"
    using assms(2,3) by (intro fl_bounded) simp_all
  then obtain s where s: "fl (q - c) = Fin s" "- (2 powi (e + 1)) \<le> s" "s \<le> 2 powi (e + 1)"
    by (auto dest: finite_inE)
  have "(2::rat) powi (e + 3) = 4 * 2 powi (e + 1)"
    using two_powi_split[of 2 "e + 1" "e + 3"] by simp
  then have "\<bar>s / (1 / 4)\<bar> \<le> 2 powi (e + 3)" using s(2,3) by simp
  then have "finite_in (- (2 powi (e + 3))) (2 powi (e + 3)) (fl (s / (1 / 4)))"
    using assms(2,3) by (intro fl_bounded) simp_all
  then show ?thesis using s(1) by simp
qed

lemma big_channel:
  assumes t: "finite_in (- (2 powi (e + 3))) (2 powi (e + 3)) t" and e: "0 \<le> e" "e \<le> 1000"
    and c: "\<bar>c0\<bar> \<le> 256" "\<bar>c1\<bar> \<le> 256"
  shows "isFinite (jadd (Fin c0) (jmul (Fin c1) t))"
proof -
  from t obtain q where q: "t = Fin q" "\<bar>q\<bar> \<le> 2 powi (e + 3)"
    by (auto dest!: finite_inE)
  have p11: "(2::rat) powi (e + 11) = 256 * 2 powi (e + 3)"
    using two_powi_split[of 8 "e + 3" "e + 11"] by simp
  have "\<bar>c1 * q\<bar> = \<bar>c1\<bar> * \<bar>q\<bar>" by (rule abs_mult)
  also have "\<dots> \<le> 256 * 2 powi (e + 3)" using c(2) q(2) by (intro mult_mono) simp_all
  finally have "\<bar>c1 * q\<bar> \<le> 2 powi (e + 11)" by (simp only: p11)
  then have "finite_in (- (2 powi (e + 11))) (2 powi (e + 11)) (fl (c1 * q))"
    using e by (intro fl_bounded) simp_all
  then obtain p where p: "fl (c1 * q) = Fin p" "\<bar>p\<bar> \<le> 2 powi (e + 11)"
    by (auto dest!: finite_inE)
  have "(256::rat) \<le> 256 * 2 powi (e + 3)" using two_powi_mono[of 0 "e + 3"] e(1) by simp
  then have "(256::rat) \<le> 2 powi (e + 11)" by (simp only: p11)
  then have "\<bar>c0 + p\<bar> \<le> 2 powi (e + 11) + 2 powi (e + 11)" using c(1) p(2) by linarith
  also have "\<dots> = 2 powi (e + 12)" using two_powi_double[of "e + 11"] by (simp add: add.commute)
  finally have "finite_in (- (2 powi (e + 12))) (2 powi (e + 12)) (fl (c0 + p))"
    using e by (intro fl_bounded) simp_all
  then obtain r where "fl (c0 + p) = Fin r" by (auto dest!: finite_inE)
  then show ?thesis using q(1) p(1) by (simp add: isFinite_def)
qed

text \<open>The interpolated values are finite for every finite input up to \<open>2 powi 1000\<close>.\<close>

lemma interpolated_finite:
  assumes "\<bar>q\<bar> \<le> 2 powi 1000"
  shows "isFinite (fst (interpolated (Fin q)))"
    and "isFinite (fst (snd (interpolated (Fin q))))"
    and "isFinite (snd (snd (interpolated (Fin q))))"
proof -
  have e: "(0::int) \<le> 1000" "(1000::int) \<le> 1000" by simp_all
  have t1: "finite_in (- (2 powi (1000 + 3))) (2 powi (1000 + 3)) (jdiv (Fin q) (Fin (1 / 4)))"
    using assms by (intro big_param_first) simp_all
  have tn: "finite_in (- (2 powi (1000 + 3))) (2 powi (1000 + 3)) (jdiv (jsub (Fin q) (Fin c)) (Fin (1 / 4)))"
    if "\<bar>c\<bar> \<le> 1" for c
    using assms that by (intro big_param_next) simp_all
  note ch1 = big_channel[OF t1 e]
  note ch2 = big_channel[OF tn[of "1 / 4"] e]
  note ch3 = big_channel[OF tn[of "1 / 2"] e]
  note ch4 = big_channel[OF tn[of "3 / 4"] e]
  show "isFinite (fst (interpolated (Fin q)))"
    using ch1[of 68 "- 9"] ch2[of 59 "- 26"] ch3[of 33 61] ch4[of 94 159]
    by (simp add: interpolated_def Let_def)
  show "isFinite (fst (snd (interpolated (Fin q))))"
    using ch1[of 1 81] ch2[of 82 62] ch3[of 144 57] ch4[of 201 30]
    by (simp add: interpolated_def Let_def)
  show "isFinite (snd (snd (interpolated (Fin q))))"
    using ch1[of 84 55] ch2[of 139 1] ch3[of 140 "- 42"] ch4[of 98 "- 61"]
    by (simp add: interpolated_def Let_def)
qed

text \<open>Each channel is \<open>Math.round\<close> of its interpolated value, and \<open>Math.round\<close> rounds to the nearest integer.\<close>

lemma getKeplerColor_interpolated:
  "red (getKeplerColor n) = Math_round (fst (interpolated n))"
  "green (getKeplerColor n) = Math_round (fst (snd (interpolated n)))"
  "blue (getKeplerColor n) = Math_round (snd (snd (interpolated n)))"
  "alpha (getKeplerColor n) = Fin 200"
  by (simp_all add: getKeplerColor_def interpolated_def red_def green_def blue_def alpha_def Let_def)

lemma Math_round_nearest: "isFinite x \<Longrightarrow> nearest_integer x (Math_round x)"
proof (cases x)
  case (Fin a)
  have "of_int \<lfloor>a + 1 / 2\<rfloor> \<le> a + 1 / 2" "a + 1 / 2 < of_int \<lfloor>a + 1 / 2\<rfloor> + 1"
    by linarith+
  then show ?thesis by (simp add: Fin nearest_integer_def)
qed (simp_all add: isFinite_def)

lemma nearest_integer_unique:
  assumes "nearest_integer x c"
  shows "isFinite x \<and> isInteger c \<and> c = Math_round x"
proof -
  from assms obtain a b where x: "x = Fin a" and c: "c = Fin b"
    and b: "b = of_int \<lfloor>b\<rfloor>" "a - 1 / 2 < b" "b \<le> a + 1 / 2"
    by (auto simp: nearest_integer_def split: number.splits)
  have "\<lfloor>a + 1 / 2\<rfloor> = \<lfloor>b\<rfloor>"
  proof (rule floor_unique)
    show "of_int \<lfloor>b\<rfloor> \<le> a + 1 / 2" using b(1,3) by simp
    show "a + 1 / 2 < of_int \<lfloor>b\<rfloor> + 1" using b(1,2) by linarith
  qed
  then show ?thesis using b(1) by (simp add: x c isFinite_def isInteger_def)
qed

lemma fl_halves [simp]:
  "numeral k < (2::int) ^ 53 \<Longrightarrow> fl (numeral k / 2) = Fin (numeral k / 2)"
  "numeral k < (2::int) ^ 53 \<Longrightarrow> fl (- (numeral k / 2)) = Fin (- (numeral k / 2))"
  "numeral k < (2::int) ^ 53 \<Longrightarrow> fl (numeral k / 4) = Fin (numeral k / 4)"
  "numeral k < (2::int) ^ 53 \<Longrightarrow> fl (- (numeral k / 4)) = Fin (- (numeral k / 4))"
  using fl_exact[of "numeral k" "- 1"] fl_exact[of "- numeral k" "- 1"]
    fl_exact[of "numeral k" "- 2"] fl_exact[of "- numeral k" "- 2"]
  by simp_all

lemma interpolated_eighth:
  "interpolated (Fin (1 / 8)) = (Fin (127 / 2), Fin (83 / 2), Fin (223 / 2))"
  by (simp add: interpolated_def)

lemma getKeplerColor_eighth: "getKeplerColor (Fin (1 / 8)) = (Fin 64, Fin 42, Fin 112, Fin 200)"
  by (simp add: getKeplerColor_def)

lemma interpolated_three_sixteenths:
  "interpolated (Fin (3 / 16)) = (Fin (245 / 4), Fin (247 / 4), Fin (501 / 4))"
  by (simp add: interpolated_def)

lemma getKeplerColor_three_sixteenths:
  "getKeplerColor (Fin (3 / 16)) = (Fin 61, Fin 62, Fin 125, Fin 200)"
  by (simp add: getKeplerColor_def)

text \<open>
  C6, as amended: for every input alpha is exactly 200, and each of R, G and B is its
  interpolated value rounded to the nearest integer (the larger of two that are equally
  near) whenever that value is finite; it is finite for every finite input of
  magnitude at most \<open>2 powi 1000\<close>. For the input NaN, R, G and B are NaN.
\<close>

theorem getKeplerColor_channels_nearest:
  "alpha (getKeplerColor n) = Fin 200 \<and>
   (isFinite (fst (interpolated n)) \<longrightarrow>
      nearest_integer (fst (interpolated n)) (red (getKeplerColor n))) \<and>
   (isFinite (fst (snd (interpolated n))) \<longrightarrow>
      nearest_integer (fst (snd (interpolated n))) (green (getKeplerColor n))) \<and>
   (isFinite (snd (snd (interpolated n))) \<longrightarrow>
      nearest_integer (snd (snd (interpolated n))) (blue (getKeplerColor n))) \<and>
   (finite_in (- (2 powi 1000)) (2 powi 1000) n \<longrightarrow>
      nearest_integer (fst (interpolated n)) (red (getKeplerColor n)) \<and>
      nearest_integer (fst (snd (interpolated n))) (green (getKeplerColor n)) \<and>
      nearest_integer (snd (snd (interpolated n))) (blue (getKeplerColor n))) \<and>
   getKeplerColor NaN = (NaN, NaN, NaN, Fin 200)"
proof -
  have near: "isFinite x \<longrightarrow> nearest_integer x (Math_round x)" for x
    by (simp add: Math_round_nearest)
  have big: "nearest_integer (fst (interpolated n)) (red (getKeplerColor n)) \<and>
      nearest_integer (fst (snd (interpolated n))) (green (getKeplerColor n)) \<and>
      nearest_integer (snd (snd (interpolated n))) (blue (getKeplerColor n))"
    if "finite_in (- (2 powi 1000)) (2 powi 1000) n"
  proof -
    from that obtain q where q: "n = Fin q" "- (2 powi 1000) \<le> q" "q \<le> 2 powi 1000"
      by (auto dest!: finite_inE)
    then have "\<bar>q\<bar> \<le> 2 powi 1000" by (intro abs_leI; linarith)
    from interpolated_finite[OF this] show ?thesis
      unfolding q(1) getKeplerColor_interpolated by (intro conjI Math_round_nearest)
  qed
  from near big getKeplerColor_NaN show ?thesis
    unfolding getKeplerColor_interpolated by blast
qed

theorem getKeplerColor_channels_nearest_witness:
  "finite_in (- (2 powi 1000)) (2 powi 1000) (Fin (1 / 8)) \<and>
   interpolated (Fin (1 / 8)) = (Fin (127 / 2), Fin (83 / 2), Fin (223 / 2)) \<and>
   getKeplerColor (Fin (1 / 8)) = (Fin 64, Fin 42, Fin 112, Fin 200) \<and>
   isFinite (Fin (127 / 2)) \<and> nearest_integer (Fin (127 / 2)) (Fin 64) \<and>
   isFinite (Fin (83 / 2)) \<and> nearest_integer (Fin (83 / 2)) (Fin 42) \<and>
   isFinite (Fin (223 / 2)) \<and> nearest_integer (Fin (223 / 2)) (Fin 112) \<and>
   finite_in (- (2 powi 1000)) (2 powi 1000) (Fin (3 / 16)) \<and>
   interpolated (Fin (3 / 16)) = (Fin (245 / 4), Fin (247 / 4), Fin (501 / 4)) \<and>
   getKeplerColor (Fin (3 / 16)) = (Fin 61, Fin 62, Fin 125, Fin 200) \<and>
   nearest_integer (Fin (245 / 4)) (Fin 61) \<and>
   nearest_integer (Fin (247 / 4)) (Fin 62) \<and>
   nearest_integer (Fin (501 / 4)) (Fin 125)"
  using getKeplerColor_channels_nearest[of "Fin (1 / 8)"]
    getKeplerColor_channels_nearest[of "Fin (3 / 16)"]
  by (simp add: interpolated_eighth getKeplerColor_eighth interpolated_three_sixteenths
      getKeplerColor_three_sixteenths red_def green_def blue_def isFinite_def)

section \<open>Inputs outside the unit interval\<close>

lemma fl_ge_Fin: "a \<le> x \<Longrightarrow> representable a \<Longrightarrow> jle (Fin a) (fl x)"
  using fl_mono[of a x] by (simp add: representable_def)

lemma fl_le_Fin: "x \<le> b \<Longrightarrow> representable b \<Longrightarrow> jle (fl x) (Fin b)"
  using fl_mono[of x b] by (simp add: representable_def)

lemma fl_minus_one [simp]: "fl (- 1) = Fin (- 1)"
  using fl_exact[of "- 1" 0] by simp

lemma representable_zero [simp]: "representable 0"
  by (simp add: representable_def)

lemma representable_one [simp]: "representable 1" "representable (- 1)"
  by (simp_all add: representable_def)

lemma jmul_neg_below:
  assumes "c < 0" "jle t (Fin 0)"
  shows "jle (Fin 0) (jmul (Fin c) t)"
proof (cases t)
  case (Fin q)
  with assms have "0 \<le> c * q" by (simp add: mult_nonpos_nonpos)
  then show ?thesis using Fin by (simp add: fl_ge_Fin)
qed (use assms in auto)

lemma jmul_pos_below:
  assumes "0 < c" "jle t (Fin 0)"
  shows "jle (jmul (Fin c) t) (Fin 0)"
proof (cases t)
  case (Fin q)
  with assms have "c * q \<le> 0" by (simp add: mult_nonneg_nonpos)
  then show ?thesis using Fin by (simp add: fl_le_Fin)
qed (use assms in auto)

lemma jmul_pos_above:
  assumes "0 < c" "representable c" "jle (Fin 1) t"
  shows "jle (Fin c) (jmul (Fin c) t)"
proof (cases t)
  case (Fin q)
  with assms have "c * 1 \<le> c * q" by (intro mult_left_mono) simp_all
  then show ?thesis using Fin assms(2) by (simp add: fl_ge_Fin)
qed (use assms in auto)

lemma jmul_neg_above:
  assumes "c < 0" "representable c" "jle (Fin 1) t"
  shows "jle (jmul (Fin c) t) (Fin c)"
proof (cases t)
  case (Fin q)
  with assms have "c * q \<le> c * 1" by (intro mult_left_mono_neg) simp_all
  then show ?thesis using Fin assms(2) by (simp add: fl_le_Fin)
qed (use assms in auto)

lemma jadd_above:
  assumes "jle (Fin a) p" "representable (c0 + a)"
  shows "jle (Fin (c0 + a)) (jadd (Fin c0) p)"
proof (cases p)
  case (Fin q)
  with assms show ?thesis by (simp add: fl_ge_Fin)
qed (use assms in auto)

lemma jadd_below:
  assumes "jle p (Fin a)" "representable (c0 + a)"
  shows "jle (jadd (Fin c0) p) (Fin (c0 + a))"
proof (cases p)
  case (Fin q)
  with assms show ?thesis by (simp add: fl_le_Fin)
qed (use assms in auto)

lemma round_above: "jle (Fin (of_int k)) x \<Longrightarrow> jle (Fin (of_int k)) (Math_round x)"
  by (cases x) (auto simp: le_floor_iff)

lemma round_below: "jle x (Fin (of_int k)) \<Longrightarrow> jle (Math_round x) (Fin (of_int k))"
  by (cases x) (auto simp: floor_le_iff)

lemma representable_numeral [simp]:
  "numeral k < (2::int) ^ 53 \<Longrightarrow> representable (numeral k)"
  "numeral k < (2::int) ^ 53 \<Longrightarrow> representable (- numeral k)"
  by (simp_all add: representable_def)

lemma param_below:
  assumes "q < 0"
  shows "jle (jdiv (Fin q) (Fin (1 / 4))) (Fin 0)"
  using assms by (simp add: fl_le_Fin)

lemma param_above:
  assumes "1 < q"
  shows "jle (Fin 1) (jdiv (jsub (Fin q) (Fin (3 / 4))) (Fin (1 / 4)))"
proof -
  have "representable (1 / 4)" by (simp add: representable_def)
  then have s: "jle (Fin (1 / 4)) (fl (q - 3 / 4))" using assms by (intro fl_ge_Fin) simp_all
  have one: "representable 1" by (simp add: representable_def)
  show ?thesis
  proof (cases "fl (q - 3 / 4)")
    case (Fin s')
    with s have "1 \<le> s' / (1 / 4)" by simp
    then have "jle (Fin 1) (fl (s' / (1 / 4)))" using one by (rule fl_ge_Fin)
    then show ?thesis using Fin s by simp
  qed (use s in auto)
qed

lemma below_zero:
  assumes "q < 0"
  shows "jle (Fin 68) (red (getKeplerColor (Fin q)))"
    and "jle (green (getKeplerColor (Fin q))) (Fin 1)"
    and "jle (blue (getKeplerColor (Fin q))) (Fin 84)"
proof -
  note t = param_below[OF assms]
  have le: "q \<le> 1 / 4" using assms by simp
  have "jle (Fin (of_int 68)) (Math_round (jadd (Fin 68) (jmul (Fin (- 9)) (jdiv (Fin q) (Fin (1 / 4))))))"
    using jadd_above[OF jmul_neg_below[OF _ t, of "- 9"], of 68] by (intro round_above) simp
  then show "jle (Fin 68) (red (getKeplerColor (Fin q)))"
    using le by (simp add: getKeplerColor_def red_def Let_def)
  have "jle (Math_round (jadd (Fin 1) (jmul (Fin 81) (jdiv (Fin q) (Fin (1 / 4)))))) (Fin (of_int 1))"
    using jadd_below[OF jmul_pos_below[OF _ t, of 81], of 1] by (intro round_below) simp
  then show "jle (green (getKeplerColor (Fin q))) (Fin 1)"
    using le by (simp add: getKeplerColor_def green_def Let_def)
  have "jle (Math_round (jadd (Fin 84) (jmul (Fin 55) (jdiv (Fin q) (Fin (1 / 4)))))) (Fin (of_int 84))"
    using jadd_below[OF jmul_pos_below[OF _ t, of 55], of 84] by (intro round_below) simp
  then show "jle (blue (getKeplerColor (Fin q))) (Fin 84)"
    using le by (simp add: getKeplerColor_def blue_def Let_def)
qed

lemma above_one:
  assumes "1 < q"
  shows "jle (Fin 253) (red (getKeplerColor (Fin q)))"
    and "jle (Fin 231) (green (getKeplerColor (Fin q)))"
    and "jle (blue (getKeplerColor (Fin q))) (Fin 37)"
proof -
  note t = param_above[OF assms]
  have gt: "\<not> q \<le> 1 / 4" "\<not> q \<le> 1 / 2" "\<not> q \<le> 3 / 4" using assms by simp_all
  have "jle (Fin (of_int 253))
      (Math_round (jadd (Fin 94) (jmul (Fin 159) (jdiv (jsub (Fin q) (Fin (3 / 4))) (Fin (1 / 4))))))"
    using jadd_above[OF jmul_pos_above[OF _ _ t, of 159], of 94] by (intro round_above) simp
  then show "jle (Fin 253) (red (getKeplerColor (Fin q)))"
    using gt by (simp add: getKeplerColor_def red_def Let_def)
  have "jle (Fin (of_int 231))
      (Math_round (jadd (Fin 201) (jmul (Fin 30) (jdiv (jsub (Fin q) (Fin (3 / 4))) (Fin (1 / 4))))))"
    using jadd_above[OF jmul_pos_above[OF _ _ t, of 30], of 201] by (intro round_above) simp
  then show "jle (Fin 231) (green (getKeplerColor (Fin q)))"
    using gt by (simp add: getKeplerColor_def green_def Let_def)
  have "jle (Math_round (jadd (Fin 98) (jmul (Fin (- 61)) (jdiv (jsub (Fin q) (Fin (3 / 4))) (Fin (1 / 4))))))
      (Fin (of_int 37))"
    using jadd_below[OF jmul_neg_above[OF _ _ t, of "- 61"], of 98] by (intro round_below) simp
  then show "jle (blue (getKeplerColor (Fin q))) (Fin 37)"
    using gt by (simp add: getKeplerColor_def blue_def Let_def)
qed

lemma getKeplerColor_minus_quarter:
  "getKeplerColor (Fin (- (1 / 4))) = (Fin 77, Fin (- 80), Fin 29, Fin 200)"
  by (simp add: getKeplerColor_def)

lemma getKeplerColor_five_quarters:
  "getKeplerColor (Fin (5 / 4)) = (Fin 412, Fin 261, Fin (- 24), Fin 200)"
  by (simp add: getKeplerColor_def)


text \<open>
  C7: the color mapper does not clamp its input. An input below 0 goes through the
  first segment's line and leaves the start color \<open>[68, 1, 84]\<close> behind (R at least 68,
  G at most 1, B at most 84); an input above 1 goes through the last segment's line and
  leaves the end color \<open>[253, 231, 37]\<close> behind (R at least 253, G at least 231, B at
  most 37). At \<open>-0.25\<close> and at \<open>1.25\<close> the colors are \<open>[77, -80, 29, 200]\<close> and
  \<open>[412, 261, -24, 200]\<close>: neither is an end color of the palette.
\<close>

theorem getKeplerColor_not_clamped:
  "(q < 0 \<longrightarrow>
      getKeplerColor (Fin q) =
        (let t = jdiv (Fin q) (Fin (1 / 4)) in
         (Math_round (jadd (Fin 68) (jmul (jsub (Fin 59) (Fin 68)) t)),
          Math_round (jadd (Fin 1) (jmul (jsub (Fin 82) (Fin 1)) t)),
          Math_round (jadd (Fin 84) (jmul (jsub (Fin 139) (Fin 84)) t)),
          Fin 200)) \<and>
      jle (Fin 68) (red (getKeplerColor (Fin q))) \<and>
      jle (green (getKeplerColor (Fin q))) (Fin 1) \<and>
      jle (blue (getKeplerColor (Fin q))) (Fin 84)) \<and>
   (1 < q \<longrightarrow>
      getKeplerColor (Fin q) =
        (let t = jdiv (jsub (Fin q) (Fin (3 / 4))) (Fin (1 / 4)) in
         (Math_round (jadd (Fin 94) (jmul (jsub (Fin 253) (Fin 94)) t)),
          Math_round (jadd (Fin 201) (jmul (jsub (Fin 231) (Fin 201)) t)),
          Math_round (jadd (Fin 98) (jmul (jsub (Fin 37) (Fin 98)) t)),
          Fin 200)) \<and>
      jle (Fin 253) (red (getKeplerColor (Fin q))) \<and>
      jle (Fin 231) (green (getKeplerColor (Fin q))) \<and>
      jle (blue (getKeplerColor (Fin q))) (Fin 37)) \<and>
   getKeplerColor (Fin (- (1 / 4))) = (Fin 77, Fin (- 80), Fin 29, Fin 200) \<and>
   getKeplerColor (Fin (5 / 4)) = (Fin 412, Fin 261, Fin (- 24), Fin 200)"
proof -
  have low: "getKeplerColor (Fin q) =
        (let t = jdiv (Fin q) (Fin (1 / 4)) in
         (Math_round (jadd (Fin 68) (jmul (jsub (Fin 59) (Fin 68)) t)),
          Math_round (jadd (Fin 1) (jmul (jsub (Fin 82) (Fin 1)) t)),
          Math_round (jadd (Fin 84) (jmul (jsub (Fin 139) (Fin 84)) t)),
          Fin 200))" if "q < 0"
    using that by (simp add: getKeplerColor_def)
  have high: "getKeplerColor (Fin q) =
        (let t = jdiv (jsub (Fin q) (Fin (3 / 4))) (Fin (1 / 4)) in
         (Math_round (jadd (Fin 94) (jmul (jsub (Fin 253) (Fin 94)) t)),
          Math_round (jadd (Fin 201) (jmul (jsub (Fin 231) (Fin 201)) t)),
          Math_round (jadd (Fin 98) (jmul (jsub (Fin 37) (Fin 98)) t)),
          Fin 200))" if "1 < q"
    using that by (simp add: getKeplerColor_def)
  from low high below_zero[of q] above_one[of q]
    getKeplerColor_minus_quarter getKeplerColor_five_quarters
  show ?thesis by blast
qed

theorem getKeplerColor_not_clamped_witness:
  "(- (1 / 4) :: rat) < 0 \<and>
   jle (Fin 68) (red (getKeplerColor (Fin (- (1 / 4))))) \<and>
   jle (green (getKeplerColor (Fin (- (1 / 4))))) (Fin 1) \<and>
   jle (blue (getKeplerColor (Fin (- (1 / 4))))) (Fin 84) \<and>
   (1 :: rat) < 5 / 4 \<and>
   jle (Fin 253) (red (getKeplerColor (Fin (5 / 4)))) \<and>
   jle (Fin 231) (green (getKeplerColor (Fin (5 / 4)))) \<and>
   jle (blue (getKeplerColor (Fin (5 / 4)))) (Fin 37)"
  using getKeplerColor_not_clamped[of "- (1 / 4)"] getKeplerColor_not_clamped[of "5 / 4"]
  by (simp add: red_def green_def blue_def)

text \<open>
  A finite input can be too large for the interpolation: at \<open>2 powi 1023\<close> the segment
  parameter overflows and the channels are infinite.
\<close>

lemma fl_overflow:
  assumes "2 powi 1024 \<le> x"
  shows "fl x = PosInf"
proof -
  have pos: "0 < x" using assms two_powi_pos[of 1024] by linarith
  have "fl_pos (of_int 1 * 2 powi 1024) = of_int 1 * 2 powi 1024"
    by (rule fl_pos_exact) simp_all
  then have "fl_pos (2 powi 1024) = 2 powi 1024" by simp
  moreover have "fl_pos (2 powi 1024) \<le> fl_pos x"
    using assms by (intro fl_pos_mono) simp_all
  ultimately have "2 powi 1024 \<le> fl_pos x" by simp
  then show ?thesis using pos by (simp add: fl_def Let_def)
qed

lemma getKeplerColor_overflow:
  "getKeplerColor (Fin (2 powi 1023)) = (PosInf, PosInf, NegInf, Fin 200)"
proof -
  have "finite_in (2 powi 1022) (2 powi 1023) (fl (2 powi 1023 - 3 / 4))"
    by (intro finite_in_fl representable_pow2) simp_all
  then obtain s where s: "fl (2 powi 1023 - 3 / 4) = Fin s" "2 powi 1022 \<le> s"
    by (auto dest!: finite_inE)
  have "2 powi 1024 \<le> s / (1 / 4)" using s(2) by simp
  then have "fl (s / (1 / 4)) = PosInf" by (rule fl_overflow)
  then have "jdiv (jsub (Fin (2 powi 1023)) (Fin (3 / 4))) (Fin (1 / 4)) = PosInf"
    using s(1) by simp
  then show ?thesis by (simp add: getKeplerColor_def)
qed

end
